theory Spec2Isabelle
  imports Complex_Main "HOL-Library.Multiset" "HOL-Library.Word"
begin

section \<open>Data model\<close>

text \<open>
  The script \<^verbatim>\<open>app.py\<close> is one linear pass over a pandas DataFrame. A DataFrame is
  modelled as its list of column labels and its rows; every row holds one cell per label.
  A cell is a number, a piece of text that \<^verbatim>\<open>read_csv\<close> could not read as a number, or
  the missing value (NaN). Floating-point numbers are modelled by the real numbers they
  stand for: rounding, overflow and the infinities are outside the model, NaN is a value
  of its own (\<open>NA\<close> in a cell, \<open>None\<close> for a scalar). A character is a code point
  below 256.
\<close>

datatype cell = Num real | Text string | NA

type_synonym fval = "real option"

record frame =
  columns :: "string list"
  rows :: "cell list list"

definition wf_frame :: "frame \<Rightarrow> bool" where
  "wf_frame df = list_all (\<lambda>r. length r = length (columns df)) (rows df)"

text \<open>
  How the script can stop early: \<^verbatim>\<open>st.stop()\<close> after one of its two error messages,
  or an exception raised by a library call and caught nowhere.
\<close>

datatype failure =
    MissingColumns "string list" "string list"
  | NoValidRespondents
  | Raised string

definition X_COLS :: "string list" where
  "X_COLS =
    [''Saya menggunakan AI tools untuk membantu memahami materi kuliah.'',
     ''AI tools membantu saya menyelesaikan tugas lebih cepat.'',
     ''AI tools membuat saya lebih mudah menemukan penjelasan konsep.'',
     ''Saya menggunakan AI tools secara rutin saat belajar mandiri.'',
     ''AI tools membantu saya merangkum materi kuliah.'',
     ''Saya menggunakan AI tools untuk mendapatkan ide saat mengerjakan tugas.'',
     ''AI tools membuat proses belajar saya terasa lebih efisien.'',
     ''Saya merasa lebih percaya diri belajar dengan bantuan AI tools.'',
     ''AI tools membantu saya memperbaiki kesalahan dalam tugas atau laporan.'',
     ''Saya merasa kualitas hasil belajar saya meningkat dengan bantuan AI Tools.'']"

definition Y_COLS :: "string list" where
  "Y_COLS =
    [''Saya mampu memahami materi kuliah dengan baik.'',
     ''Saya dapat menyelesaikan tugas tepat waktu.'',
     ''Saya mampu fokus saat belajar.'',
     ''Metode belajar saya terasa semakin efektif.'',
     ''Produktivitas belajar saya meningkat.'',
     ''Saya dapat meninjau materi dengan lebih terstruktur.'',
     ''Saya mampu mengatur waktu belajar dengan baik.'',
     ''Saya mampu mengingat materi pembelajaran dengan lebih baik.'',
     ''Saya dapat menyelesaikan lebih banyak materi dalam waktu yang sama.'',
     ''Saya merasa hasil belajar saya meningkat secara keseluruhan.'']"

section \<open>The pandas operations the script uses\<close>

text \<open>
  \<^verbatim>\<open>str.strip()\<close> removes leading and trailing white space: the code points for which
  \<^verbatim>\<open>str.isspace()\<close> holds (below 256: 9 to 13, 28 to 32, 133 and 160).
\<close>

definition is_space :: "char \<Rightarrow> bool" where
  "is_space c = (of_char c \<in> {9, 10, 11, 12, 13, 28, 29, 30, 31, 32, 133, 160 :: nat})"

definition strip :: "string \<Rightarrow> string" where
  "strip s = rev (dropWhile is_space (rev (dropWhile is_space s)))"

text \<open>The cells of one row that stand under the label \<open>c\<close> (one for each column so labelled).\<close>

definition getcells :: "string list \<Rightarrow> cell list \<Rightarrow> string \<Rightarrow> cell list" where
  "getcells cols r c = map snd (filter (\<lambda>lv. fst lv = c) (zip cols r))"

text \<open>
  \<^verbatim>\<open>df[c]\<close> for one label: a Series when exactly one column carries the label. An absent
  label raises KeyError; a label carried by several columns gives a two-dimensional
  result, on which the call that expects a Series raises TypeError.
\<close>

definition getcol :: "string \<Rightarrow> frame \<Rightarrow> failure + cell list" where
  "getcol c df =
     (if c \<notin> set (columns df) then Inl (Raised ''KeyError'')
      else if count_list (columns df) c \<noteq> 1 then Inl (Raised ''TypeError'')
      else Inr (concat (map (\<lambda>r. getcells (columns df) r c) (rows df))))"

text \<open>\<^verbatim>\<open>df[labels]\<close> for a list of labels: the columns so labelled, in the order of the list.\<close>

definition select :: "string list \<Rightarrow> frame \<Rightarrow> failure + frame" where
  "select labels df =
     (if set labels \<subseteq> set (columns df)
      then Inr \<lparr>columns = concat (map (\<lambda>c. filter (\<lambda>l. l = c) (columns df)) labels),
                rows = map (\<lambda>r. concat (map (getcells (columns df) r) labels)) (rows df)\<rparr>
      else Inl (Raised ''KeyError''))"

text \<open>
  \<^verbatim>\<open>df[c] = values\<close>: overwrites the column(s) labelled \<open>c\<close>, or appends a new last
  column when no column carries the label.
\<close>

definition assign :: "string \<Rightarrow> cell list \<Rightarrow> frame \<Rightarrow> frame" where
  "assign c vs df =
     (if c \<in> set (columns df)
      then df\<lparr>rows := map (\<lambda>(r, v). map (\<lambda>(l, x). if l = c then v else x) (zip (columns df) r))
                          (zip (rows df) vs)\<rparr>
      else \<lparr>columns = columns df @ [c], rows = map (\<lambda>(r, v). r @ [v]) (zip (rows df) vs)\<rparr>)"

text \<open>\<^verbatim>\<open>df.drop(columns=labels)\<close>: KeyError when a label is absent.\<close>

definition drop_columns :: "string list \<Rightarrow> frame \<Rightarrow> failure + frame" where
  "drop_columns labels df =
     (if set labels \<subseteq> set (columns df)
      then Inr \<lparr>columns = filter (\<lambda>l. l \<notin> set labels) (columns df),
                rows = map (\<lambda>r. map snd (filter (\<lambda>lv. fst lv \<notin> set labels) (zip (columns df) r)))
                         (rows df)\<rparr>
      else Inl (Raised ''KeyError''))"

text \<open>\<^verbatim>\<open>df[mask]\<close> with a Boolean Series: the rows whose mask entry is true.\<close>

definition take_rows :: "bool list \<Rightarrow> frame \<Rightarrow> frame" where
  "take_rows keep df = df\<lparr>rows := map fst (filter snd (zip (rows df) keep))\<rparr>"

text \<open>
  \<^verbatim>\<open>pd.to_numeric(..., errors="coerce")\<close> on one cell: a number stays, text becomes the
  number it spells or NaN. The parser of numerals is pandas' own and is a parameter.
\<close>

fun to_numeric :: "(string \<Rightarrow> real option) \<Rightarrow> cell \<Rightarrow> cell" where
  "to_numeric parse (Num r) = Num r"
| "to_numeric parse (Text s) = (case parse s of Some r \<Rightarrow> Num r | None \<Rightarrow> NA)"
| "to_numeric parse NA = NA"

definition notna :: "cell \<Rightarrow> bool" where
  "notna c = (c \<noteq> NA)"

text \<open>The reducers skip missing entries (\<^verbatim>\<open>skipna=True\<close> is the default of pandas).\<close>

fun numbers :: "cell list \<Rightarrow> real list" where
  "numbers [] = []"
| "numbers (Num r # cs) = r # numbers cs"
| "numbers (Text s # cs) = numbers cs"
| "numbers (NA # cs) = numbers cs"

definition nansum :: "cell list \<Rightarrow> real" where
  "nansum cs = sum_list (numbers cs)"

definition nanmean :: "cell list \<Rightarrow> cell" where
  "nanmean cs =
     (if numbers cs = [] then NA
      else Num (sum_list (numbers cs) / real (length (numbers cs))))"

text \<open>\<^verbatim>\<open>var(ddof=1)\<close>: NaN unless more than one value is present.\<close>

definition nanvar :: "cell list \<Rightarrow> fval" where
  "nanvar cs =
     (let xs = numbers cs; n = length xs in
      if n \<le> 1 then None
      else Some ((\<Sum>x\<leftarrow>xs. (x - sum_list xs / real n)\<^sup>2) / (real n - 1)))"

fun present :: "fval list \<Rightarrow> real list" where
  "present [] = []"
| "present (Some v # vs) = v # present vs"
| "present (None # vs) = present vs"

definition cell_at :: "cell list \<Rightarrow> nat \<Rightarrow> cell" where
  "cell_at r j = (if j < length r then r ! j else NA)"

text \<open>Comparison of a float with a literal: false on NaN.\<close>

fun ge :: "cell \<Rightarrow> real \<Rightarrow> bool" where
  "ge (Num r) t = (t \<le> r)"
| "ge (Text s) t = False"
| "ge NA t = False"

section \<open>The pipeline\<close>

subsection \<open>Column check (lines 44 and 80 to 90)\<close>

definition strip_columns :: "frame \<Rightarrow> frame" where
  "strip_columns df = df\<lparr>columns := map strip (columns df)\<rparr>"

definition missing_x :: "frame \<Rightarrow> string list" where
  "missing_x df = [c \<leftarrow> X_COLS. c \<notin> set (columns df)]"

definition missing_y :: "frame \<Rightarrow> string list" where
  "missing_y df = [c \<leftarrow> Y_COLS. c \<notin> set (columns df)]"

subsection \<open>Conversion to numbers (lines 95 and 96)\<close>

fun coerce :: "(string \<Rightarrow> real option) \<Rightarrow> string list \<Rightarrow> frame \<Rightarrow> failure + frame" where
  "coerce parse [] df = Inr df"
| "coerce parse (c # cs) df =
     (case getcol c df of
        Inl e \<Rightarrow> Inl e
      | Inr s \<Rightarrow> coerce parse cs (assign c (map (to_numeric parse) s) df))"

subsection \<open>Listwise filter (lines 102 to 104)\<close>

definition valid_count :: "cell list \<Rightarrow> nat" where
  "valid_count r = length (filter notna r)"

definition listwise_filter :: "frame \<Rightarrow> failure + frame" where
  "listwise_filter items_df =
     (let counted = assign ''valid_count'' (map (\<lambda>r. Num (real (valid_count r))) (rows items_df))
                      items_df
      in case getcol ''valid_count'' counted of
           Inl e \<Rightarrow> Inl e
         | Inr vc \<Rightarrow> drop_columns [''valid_count''] (take_rows (map (\<lambda>v. ge v 18) vc) counted))"

subsection \<open>Composite scores (lines 115 to 118)\<close>

definition sum_axis1 :: "frame \<Rightarrow> cell list" where
  "sum_axis1 df = map (\<lambda>r. Num (nansum r)) (rows df)"

definition mean_axis1 :: "frame \<Rightarrow> cell list" where
  "mean_axis1 df = map nanmean (rows df)"

definition score :: "frame \<Rightarrow> failure + frame" where
  "score df_clean =
     (case select X_COLS df_clean of Inl e \<Rightarrow> Inl e | Inr x_items \<Rightarrow>
      let df1 = assign ''X_total'' (sum_axis1 x_items) df_clean in
      case select Y_COLS df1 of Inl e \<Rightarrow> Inl e | Inr y_items \<Rightarrow>
      let df2 = assign ''Y_total'' (sum_axis1 y_items) df1 in
      case select X_COLS df2 of Inl e \<Rightarrow> Inl e | Inr x_items' \<Rightarrow>
      let df3 = assign ''X_mean'' (mean_axis1 x_items') df2 in
      case select Y_COLS df3 of Inl e \<Rightarrow> Inl e | Inr y_items' \<Rightarrow>
      Inr (assign ''Y_mean'' (mean_axis1 y_items') df3))"

text \<open>Lines 44 to 118: from the table as read to the table with its composite columns.\<close>

definition prepare :: "(string \<Rightarrow> real option) \<Rightarrow> frame \<Rightarrow> failure + frame" where
  "prepare parse df0 =
     (let df = strip_columns df0 in
      if missing_x df \<noteq> [] \<or> missing_y df \<noteq> []
      then Inl (MissingColumns (missing_x df) (missing_y df))
      else case coerce parse (X_COLS @ Y_COLS) df of Inl e \<Rightarrow> Inl e | Inr df' \<Rightarrow>
           case select (X_COLS @ Y_COLS) df' of Inl e \<Rightarrow> Inl e | Inr items_df \<Rightarrow>
           case listwise_filter items_df of Inl e \<Rightarrow> Inl e | Inr df_clean \<Rightarrow>
           if length (rows df_clean) = 0 then Inl NoValidRespondents
           else score df_clean)"

subsection \<open>Reliability (lines 132 to 142)\<close>

definition dropna :: "frame \<Rightarrow> frame" where
  "dropna df = df\<lparr>rows := filter (list_all notna) (rows df)\<rparr>"

definition var_axis0 :: "frame \<Rightarrow> fval list" where
  "var_axis0 df = map (\<lambda>j. nanvar (map (\<lambda>r. cell_at r j) (rows df))) [0..<length (columns df)]"

definition cronbach_alpha :: "frame \<Rightarrow> fval" where
  "cronbach_alpha df_items0 =
     (let df_items = dropna df_items0;
          k = length (columns df_items)
      in if k \<le> 1 \<or> length (rows df_items) = 0 then None
         else
           let item_var = var_axis0 df_items;
               total_var = nanvar (sum_axis1 df_items)
           in if total_var = Some 0 then None
              else map_option
                     (\<lambda>tv. (real k / (real k - 1)) * (1 - sum_list (present item_var) / tv))
                     total_var)"

subsection \<open>Normality, choice of method, correlation, verdict (lines 157 to 192)\<close>

text \<open>
  The three routines of \<^verbatim>\<open>scipy.stats\<close> are not part of the repository: they are
  parameters. Each takes its sample(s) and either raises or returns a statistic and a
  p-value, either of which may be NaN.
\<close>

record scipy =
  shapiro :: "cell list \<Rightarrow> failure + (fval \<times> fval)"
  pearsonr :: "cell list \<Rightarrow> cell list \<Rightarrow> failure + (fval \<times> fval)"
  spearmanr :: "cell list \<Rightarrow> cell list \<Rightarrow> failure + (fval \<times> fval)"

datatype corr_method = Pearson | Spearman

datatype verdict = Significant | NotSignificant

text \<open>\<^verbatim>\<open>a > 0.05\<close> and \<^verbatim>\<open>a < 0.05\<close> on floats: false when \<open>a\<close> is NaN.\<close>

fun gt :: "fval \<Rightarrow> real \<Rightarrow> bool" where
  "gt (Some a) t = (t < a)"
| "gt None t = False"

fun lt :: "fval \<Rightarrow> real \<Rightarrow> bool" where
  "lt (Some a) t = (a < t)"
| "lt None t = False"

definition select_method :: "fval \<Rightarrow> fval \<Rightarrow> corr_method" where
  "select_method px py = (if gt px 0.05 \<and> gt py 0.05 then Pearson else Spearman)"

definition classify :: "fval \<Rightarrow> verdict" where
  "classify p = (if lt p 0.05 then Significant else NotSignificant)"

subsection \<open>Export (line 228)\<close>

text \<open>
  \<^verbatim>\<open>to_csv(index=False)\<close>: one line of labels, one line per row, fields joined by
  commas, NaN written as the empty field. How a float is printed and the line
  terminator of the platform are parameters. No field of this table needs quoting: the
  labels hold no comma, quote or line break, and the other fields are printed floats.
\<close>

record csv_format =
  float_repr :: "real \<Rightarrow> string"
  linesep :: string

fun join :: "string \<Rightarrow> string list \<Rightarrow> string" where
  "join sep [] = []"
| "join sep [s] = s"
| "join sep (s # t # ss) = s @ sep @ join sep (t # ss)"

fun render :: "(real \<Rightarrow> string) \<Rightarrow> cell \<Rightarrow> string" where
  "render repr (Num r) = repr r"
| "render repr (Text s) = s"
| "render repr NA = []"

definition to_csv :: "csv_format \<Rightarrow> frame \<Rightarrow> string" where
  "to_csv fmt df =
     concat (map (\<lambda>fields. join '','' fields @ linesep fmt)
                 (columns df # map (map (render (float_repr fmt))) (rows df)))"

definition encode_utf8 :: "string \<Rightarrow> 8 word list" where
  "encode_utf8 s =
     concat (map (\<lambda>c. let n = (of_char c :: nat) in
                       if n < 128 then [of_nat n]
                       else [of_nat (192 + n div 64), of_nat (128 + n mod 64)]) s)"

subsection \<open>The whole script\<close>

text \<open>
  What a complete run has shown and offers for download. The descriptive tables and the
  three charts are display only and are left out.
\<close>

record report =
  n_respondents :: nat
  table :: frame
  alpha_x :: fval
  alpha_y :: fval
  shapiro_x :: "fval \<times> fval"
  shapiro_y :: "fval \<times> fval"
  chosen :: corr_method
  r_value :: fval
  p_value :: fval
  conclusion :: verdict
  csv_bytes :: "8 word list"

text \<open>Lines 146 to 228, on the table with its composite columns.\<close>

definition statistics :: "scipy \<Rightarrow> csv_format \<Rightarrow> frame \<Rightarrow> failure + report" where
  "statistics lib fmt df_clean =
     (case select X_COLS df_clean of Inl e \<Rightarrow> Inl e | Inr x_items \<Rightarrow>
      case select Y_COLS df_clean of Inl e \<Rightarrow> Inl e | Inr y_items \<Rightarrow>
      case getcol ''X_total'' df_clean of Inl e \<Rightarrow> Inl e | Inr xt \<Rightarrow>
      case shapiro lib xt of Inl e \<Rightarrow> Inl e | Inr sx \<Rightarrow>
      case getcol ''Y_total'' df_clean of Inl e \<Rightarrow> Inl e | Inr yt \<Rightarrow>
      case shapiro lib yt of Inl e \<Rightarrow> Inl e | Inr sy \<Rightarrow>
      let m = select_method (snd sx) (snd sy) in
      case (if m = Pearson then pearsonr lib xt yt else spearmanr lib xt yt) of
        Inl e \<Rightarrow> Inl e
      | Inr (r, p) \<Rightarrow>
          Inr \<lparr>n_respondents = length (rows df_clean),
               table = df_clean,
               alpha_x = cronbach_alpha x_items,
               alpha_y = cronbach_alpha y_items,
               shapiro_x = sx,
               shapiro_y = sy,
               chosen = m,
               r_value = r,
               p_value = p,
               conclusion = classify p,
               csv_bytes = encode_utf8 (to_csv fmt df_clean)\<rparr>)"

definition analyse ::
    "(string \<Rightarrow> real option) \<Rightarrow> scipy \<Rightarrow> csv_format \<Rightarrow> frame \<Rightarrow> failure + report" where
  "analyse parse lib fmt df =
     (case prepare parse df of Inl e \<Rightarrow> Inl e | Inr df_clean \<Rightarrow> statistics lib fmt df_clean)"

section \<open>Reference notions used in the statements\<close>

text \<open>
  The four columns the script appends, the twenty item cells of one row of the table as
  read (looked up by label and converted), the rows that pass the listwise filter, and
  the four composite scores of a row of twenty item cells.
\<close>

definition COMPOSITE_COLS :: "string list" where
  "COMPOSITE_COLS = [''X_total'', ''Y_total'', ''X_mean'', ''Y_mean'']"

definition item_cells :: "(string \<Rightarrow> real option) \<Rightarrow> string list \<Rightarrow> cell list \<Rightarrow> cell list" where
  "item_cells parse cols r =
     map (to_numeric parse) (concat (map (getcells cols r) (X_COLS @ Y_COLS)))"

definition kept_rows :: "(string \<Rightarrow> real option) \<Rightarrow> frame \<Rightarrow> cell list list" where
  "kept_rows parse df =
     filter (\<lambda>r. 18 \<le> valid_count r)
       (map (item_cells parse (map strip (columns df))) (rows df))"

definition composites :: "cell list \<Rightarrow> cell list" where
  "composites r =
     [Num (nansum (take 10 r)), Num (nansum (drop 10 r)),
      nanmean (take 10 r), nanmean (drop 10 r)]"

definition scored :: "cell list list \<Rightarrow> frame" where
  "scored K = \<lparr>columns = X_COLS @ Y_COLS @ COMPOSITE_COLS, rows = map (\<lambda>r. r @ composites r) K\<rparr>"

definition x_totals :: "cell list list \<Rightarrow> cell list" where
  "x_totals K = map (\<lambda>r. Num (nansum (take 10 r))) K"

definition y_totals :: "cell list list \<Rightarrow> cell list" where
  "y_totals K = map (\<lambda>r. Num (nansum (drop 10 r))) K"




section \<open>Stand-ins and sample tables for the examples\<close>

text \<open>
  The examples need concrete values for the parameters. \<open>parse_digits\<close> reads a
  string of decimal digits, which is all a Likert answer needs. \<open>scipy_nan\<close> is a
  library whose routines return NaN for both numbers, as SciPy does from release 1.14
  on for a sample that is too small; \<open>scipy_min3\<close> is one whose normality test
  raises on fewer than three observations, as SciPy does up to release 1.13. Neither
  says anything about larger samples. \<open>demo_fmt\<close> fixes a line terminator; how it
  prints a float is never looked at.
\<close>

definition parse_digits :: "string \<Rightarrow> real option" where
  "parse_digits s =
     (if s \<noteq> [] \<and> list_all (\<lambda>c. 48 \<le> (of_char c :: nat) \<and> (of_char c :: nat) \<le> 57) s
      then Some (real (foldl (\<lambda>n c. 10 * n + (of_char c - 48)) 0 s))
      else None)"

definition scipy_nan :: scipy where
  "scipy_nan =
     \<lparr>shapiro = (\<lambda>xs. Inr (None, None)),
      pearsonr = (\<lambda>xs ys. Inr (None, None)),
      spearmanr = (\<lambda>xs ys. Inr (None, None))\<rparr>"

definition scipy_min3 :: scipy where
  "scipy_min3 =
     \<lparr>shapiro = (\<lambda>xs. if length xs < 3 then Inl (Raised ''ValueError'') else Inr (None, None)),
      pearsonr = (\<lambda>xs ys. Inr (None, None)),
      spearmanr = (\<lambda>xs ys. Inr (None, None))\<rparr>"

definition demo_fmt :: csv_format where
  "demo_fmt = \<lparr>float_repr = (\<lambda>r. ''#''), linesep = [CHR 0x0A]\<rparr>"

definition demo_missing :: frame where
  "demo_missing =
     \<lparr>columns = ''Timestamp'' # map (\<lambda>c. c @ '' '') X_COLS,
      rows = [[Text ''t'', Num 4, Num 4, Num 4, Num 4, Num 4, Num 4, Num 4, Num 4, Num 4, Num 4]]\<rparr>"

definition full_row :: "cell list" where
  "full_row = [Num 4, Num 4, Num 4, Num 4, Num 4, Num 4, Num 4, Num 4, Num 4, Num 4,
               Num 3, Num 3, Num 3, Num 3, Num 3, Num 3, Num 3, Num 3, Num 3, Num 3]"

definition row_18 :: "cell list" where
  "row_18 = [NA, NA, Num 5, Num 5, Num 5, Num 5, Num 5, Num 5, Num 5, Num 5,
             Num 2, Num 2, Num 2, Num 2, Num 2, Num 2, Num 2, Num 2, Num 2, Num 2]"

definition row_17 :: "cell list" where
  "row_17 = [NA, NA, NA, Num 5, Num 5, Num 5, Num 5, Num 5, Num 5, Num 5,
             Num 2, Num 2, Num 2, Num 2, Num 2, Num 2, Num 2, Num 2, Num 2, Num 2]"

definition demo_items :: frame where
  "demo_items = \<lparr>columns = X_COLS @ Y_COLS, rows = [full_row, row_18, row_17]\<rparr>"

definition raw_18 :: "cell list" where
  "raw_18 = [NA, Text ''n/a'', Text ''5'', Num 5, Num 5, Num 5, Num 5, Num 5, Num 5, Num 5,
             Num 2, Num 2, Num 2, Num 2, Num 2, Num 2, Num 2, Num 2, Num 2, Text ''2'']"

definition demo_raw :: frame where
  "demo_raw =
     \<lparr>columns = ''Timestamp'' # map (\<lambda>c. c @ '' '') X_COLS @ Y_COLS,
      rows = [Text ''a'' # full_row, Text ''b'' # raw_18, Text ''c'' # row_17]\<rparr>"

definition demo_report :: report where
  "demo_report =
     \<lparr>n_respondents = 2,
      table = scored [full_row, row_18],
      alpha_x = cronbach_alpha \<lparr>columns = X_COLS, rows = map (take 10) [full_row, row_18]\<rparr>,
      alpha_y = cronbach_alpha \<lparr>columns = Y_COLS, rows = map (drop 10) [full_row, row_18]\<rparr>,
      shapiro_x = (None, None),
      shapiro_y = (None, None),
      chosen = Spearman,
      r_value = None,
      p_value = None,
      conclusion = NotSignificant,
      csv_bytes = encode_utf8 (to_csv demo_fmt (scored [full_row, row_18]))\<rparr>"

definition demo_none :: frame where
  "demo_none = \<lparr>columns = X_COLS @ Y_COLS, rows = [row_17]\<rparr>"





section \<open>Lemmas on the table operations\<close>

lemma distinct_item_columns: "distinct (X_COLS @ Y_COLS)"
  by (simp add: X_COLS_def Y_COLS_def)

lemma getcells_Nil [simp]: "getcells [] r c = []" "getcells cols [] c = []"
  by (simp_all add: getcells_def)

lemma getcells_Cons:
  "getcells (a # A) (v # r) c = (if a = c then v # getcells A r c else getcells A r c)"
  by (simp add: getcells_def)

lemma getcells_absent: "c \<notin> set cols \<Longrightarrow> getcells cols r c = []"
proof (induction cols arbitrary: r)
  case Nil
  then show ?case by simp
next
  case (Cons a cols)
  then show ?case by (cases r) (auto simp: getcells_Cons)
qed

lemma getcells_append:
  "length ra = length A \<Longrightarrow> getcells (A @ B) (ra @ rb) c = getcells A ra c @ getcells B rb c"
  by (simp add: getcells_def)

lemma getcells_all:
  "distinct A \<Longrightarrow> length ra = length A \<Longrightarrow> concat (map (getcells A ra) A) = ra"
proof (induction A arbitrary: ra)
  case Nil
  then show ?case by simp
next
  case (Cons a A)
  then obtain v r where ra: "ra = v # r" by (cases ra) auto
  have h: "map (getcells (a # A) (v # r)) A = map (getcells A r) A"
    using Cons.prems(1) by (intro map_cong) (auto simp: getcells_Cons)
  have e: "getcells (a # A) (v # r) a = [v]"
    using Cons.prems(1) by (simp add: getcells_Cons getcells_absent)
  have "concat (map (getcells (a # A) ra) (a # A)) =
        getcells (a # A) (v # r) a @ concat (map (getcells (a # A) (v # r)) A)"
    by (simp add: ra)
  also have "\<dots> = v # concat (map (getcells A r) A)"
    by (simp only: h e) simp
  also have "\<dots> = ra"
    using Cons ra by simp
  finally show ?case .
qed

lemma getcells_block:
  assumes "distinct (A @ B @ C)" "length r = length (A @ B @ C)"
  shows "concat (map (getcells (A @ B @ C) r) B) = take (length B) (drop (length A) r)"
proof -
  define ra where "ra = take (length A) r"
  define rb where "rb = take (length B) (drop (length A) r)"
  define rc where "rc = drop (length B) (drop (length A) r)"
  have r: "r = ra @ rb @ rc"
    unfolding ra_def rb_def rc_def by (metis append_take_drop_id)
  have la: "length ra = length A" and lb: "length rb = length B"
    using assms(2) by (simp_all add: ra_def rb_def)
  have "getcells (A @ B @ C) r c = getcells B rb c" if "c \<in> set B" for c
  proof -
    have "c \<notin> set A" "c \<notin> set C" using assms(1) that by auto
    then show ?thesis
      by (simp add: r getcells_append la lb getcells_absent)
  qed
  then have h: "map (getcells (A @ B @ C) r) B = map (getcells B rb) B"
    by (intro map_cong) auto
  have "distinct B" using assms(1) by simp
  then have "concat (map (getcells B rb) B) = rb"
    using lb by (rule getcells_all)
  then show ?thesis by (simp only: h rb_def)
qed

lemma getcells_map_zip:
  "getcells cols (map (\<lambda>(l, x). F l x) (zip cols r)) c = map (F c) (getcells cols r c)"
proof (induction cols arbitrary: r)
  case Nil
  then show ?case by simp
next
  case (Cons a cols)
  then show ?case by (cases r) (auto simp: getcells_Cons)
qed

lemma getcells_single:
  "count_list cols c = 1 \<Longrightarrow> length r = length cols \<Longrightarrow> \<exists>x. getcells cols r c = [x]"
proof (induction cols arbitrary: r)
  case Nil
  then show ?case by simp
next
  case (Cons a cols)
  then obtain v r' where r: "r = v # r'" by (cases r) auto
  show ?case
  proof (cases "a = c")
    case True
    then have "count_list cols c = 0" using Cons.prems(1) by simp
    then have "c \<notin> set cols" by (simp add: count_list_0_iff)
    then show ?thesis using True r by (simp add: getcells_absent getcells_Cons)
  next
    case False
    then show ?thesis using Cons r by (simp add: getcells_Cons)
  qed
qed

lemma filter_label_single: "count_list cols c = 1 \<Longrightarrow> filter (\<lambda>l. l = c) cols = [c]"
proof (induction cols)
  case Nil
  then show ?case by simp
next
  case (Cons a cols)
  show ?case
  proof (cases "a = c")
    case True
    then have "count_list cols c = 0" using Cons.prems by simp
    then have "c \<notin> set cols" by (simp add: count_list_0_iff)
    then have "filter (\<lambda>l. l = c) cols = []" by (auto simp: filter_empty_conv)
    then show ?thesis using True by simp
  next
    case False
    then show ?thesis using Cons by simp
  qed
qed

lemma map_zip_map_same: "map (\<lambda>(r, v). h r v) (zip xs (map g xs)) = map (\<lambda>r. h r (g r)) xs"
  by (induction xs) auto

lemma map_fst_filter_snd:
  "map fst (filter snd (zip (map f xs) (map p xs))) = map f (filter p xs)"
  by (induction xs) auto

lemma concat_singletons: "concat (map (\<lambda>r. [g r]) xs) = map g xs"
  by (induction xs) auto

lemma map_zip_compose:
  "map (\<lambda>(l, x). G l x) (zip cols (map (\<lambda>(l, x). F l x) (zip cols r))) =
   map (\<lambda>(l, x). G l (F l x)) (zip cols r)"
proof (induction cols arbitrary: r)
  case Nil
  then show ?case by simp
next
  case (Cons a cols)
  then show ?case by (cases r) auto
qed

lemma count_one_member: "count_list cols c = 1 \<Longrightarrow> c \<in> set cols"
  using count_list_0_iff [of cols c] by fastforce

lemma distinct_count_one: "distinct cols \<Longrightarrow> c \<in> set cols \<Longrightarrow> count_list cols c = 1"
  by (induction cols) (auto simp: count_list_0_iff)

lemma replace_by_own_cell:
  "count_list cols c = 1 \<Longrightarrow> length r = length cols \<Longrightarrow>
   map (\<lambda>(l, x). if l = c then f (hd (getcells cols r c)) else x) (zip cols r) =
   map (\<lambda>(l, x). if l = c then f x else x) (zip cols r)"
proof (induction cols arbitrary: r)
  case Nil
  then show ?case by simp
next
  case (Cons a cols)
  then obtain v r' where r: "r = v # r'" by (cases r) auto
  show ?case
  proof (cases "a = c")
    case True
    then have "count_list cols c = 0" using Cons.prems(1) by simp
    then have notin: "c \<notin> set cols" by (simp add: count_list_0_iff)
    have "map (\<lambda>(l, x). if l = c then f v else x) (zip cols r') =
          map (\<lambda>(l, x). if l = c then f x else x) (zip cols r')"
      using notin by (intro map_cong) (auto dest: set_zip_leftD)
    then show ?thesis using True r notin by (simp add: getcells_Cons getcells_absent)
  next
    case False
    then have "count_list cols c = 1" using Cons.prems(1) by simp
    moreover have "length r' = length cols" using Cons.prems(2) r by simp
    ultimately show ?thesis using Cons.IH [of r'] False r by (simp add: getcells_Cons)
  qed
qed

lemma getcol_single:
  assumes "wf_frame df" "count_list (columns df) c = 1"
  shows "getcol c df = Inr (map (\<lambda>r. hd (getcells (columns df) r c)) (rows df))"
proof -
  have "getcells (columns df) r c = [hd (getcells (columns df) r c)]" if "r \<in> set (rows df)" for r
  proof -
    have "length r = length (columns df)"
      using assms(1) that by (simp add: wf_frame_def list_all_iff)
    then obtain x where "getcells (columns df) r c = [x]"
      using getcells_single [OF assms(2)] by blast
    then show ?thesis by simp
  qed
  then have "map (\<lambda>r. getcells (columns df) r c) (rows df) =
             map (\<lambda>r. [hd (getcells (columns df) r c)]) (rows df)"
    by (intro map_cong) auto
  then have "concat (map (\<lambda>r. getcells (columns df) r c) (rows df)) =
             map (\<lambda>r. hd (getcells (columns df) r c)) (rows df)"
    by (simp only: concat_singletons)
  then show ?thesis
    using assms(2) count_one_member [OF assms(2)] by (simp add: getcol_def)
qed

lemma coerce_one:
  assumes "wf_frame df" "count_list (columns df) c = 1"
  shows "assign c (map f (map (\<lambda>r. hd (getcells (columns df) r c)) (rows df))) df =
         df\<lparr>rows := map (\<lambda>r. map (\<lambda>(l, x). if l = c then f x else x) (zip (columns df) r))
                          (rows df)\<rparr>"
proof -
  have "map (\<lambda>r. map (\<lambda>(l, x). if l = c then f (hd (getcells (columns df) r c)) else x)
                    (zip (columns df) r)) (rows df) =
        map (\<lambda>r. map (\<lambda>(l, x). if l = c then f x else x) (zip (columns df) r)) (rows df)"
  proof (rule map_cong [OF refl])
    fix r assume "r \<in> set (rows df)"
    then have "length r = length (columns df)"
      using assms(1) by (simp add: wf_frame_def list_all_iff)
    then show "map (\<lambda>(l, x). if l = c then f (hd (getcells (columns df) r c)) else x)
                 (zip (columns df) r) =
               map (\<lambda>(l, x). if l = c then f x else x) (zip (columns df) r)"
      using replace_by_own_cell [OF assms(2)] by blast
  qed
  then show ?thesis
    using count_one_member [OF assms(2)]
    by (simp add: assign_def map_zip_map_same [where h = "\<lambda>r v. map (\<lambda>(l, x). if l = c then v else x) (zip (columns df) r)" and g = "\<lambda>r. f (hd (getcells (columns df) r c))"] comp_def)
qed

lemma to_numeric_idem [simp]: "to_numeric parse (to_numeric parse x) = to_numeric parse x"
  by (cases x) (auto split: option.splits)

lemma wf_frame_map_zip:
  "wf_frame df \<Longrightarrow> wf_frame (df\<lparr>rows := map (\<lambda>r. map F (zip (columns df) r)) (rows df)\<rparr>)"
  by (simp add: wf_frame_def list_all_iff)

lemma coerce_rows:
  assumes "wf_frame df" "\<forall>c\<in>set L. count_list (columns df) c = 1"
  shows "coerce parse L df =
         Inr (df\<lparr>rows := map (\<lambda>r. map (\<lambda>(l, x). if l \<in> set L then to_numeric parse x else x)
                                   (zip (columns df) r)) (rows df)\<rparr>)"
  using assms
proof (induction L arbitrary: df)
  case Nil
  have "map (\<lambda>(l, x). x) (zip (columns df) r) = r" if "r \<in> set (rows df)" for r
  proof -
    have "length r = length (columns df)"
      using Nil(1) that by (simp add: wf_frame_def list_all_iff)
    then have "map snd (zip (columns df) r) = r" by simp
    then show ?thesis by (simp add: case_prod_unfold)
  qed
  then have "map (\<lambda>r. map (\<lambda>(l, x). x) (zip (columns df) r)) (rows df) = rows df"
    by (simp add: map_idI)
  then show ?case by simp
next
  case (Cons c cs)
  let ?F = "\<lambda>(l, x). if l = c then to_numeric parse x else x"
  let ?df1 = "df\<lparr>rows := map (\<lambda>r. map ?F (zip (columns df) r)) (rows df)\<rparr>"
  have c1: "count_list (columns df) c = 1" using Cons.prems(2) by simp
  have step: "coerce parse (c # cs) df = coerce parse cs ?df1"
    using getcol_single [OF Cons.prems(1) c1] coerce_one [OF Cons.prems(1) c1, of "to_numeric parse"]
    by simp
  have wf1: "wf_frame ?df1" using Cons.prems(1) by (rule wf_frame_map_zip)
  have cnt1: "\<forall>c\<in>set cs. count_list (columns ?df1) c = 1" using Cons.prems(2) by simp
  have "coerce parse cs ?df1 =
        Inr (?df1\<lparr>rows := map (\<lambda>r. map (\<lambda>(l, x). if l \<in> set cs then to_numeric parse x else x)
                                   (zip (columns ?df1) r)) (rows ?df1)\<rparr>)"
    using Cons.IH [OF wf1 cnt1] .
  moreover have "map (\<lambda>(l, x). if l \<in> set cs then to_numeric parse x else x)
                   (zip (columns df) (map ?F (zip (columns df) r))) =
                 map (\<lambda>(l, x). if l \<in> set (c # cs) then to_numeric parse x else x)
                   (zip (columns df) r)" for r
  proof -
    have "map (\<lambda>(l, x). if l \<in> set cs then to_numeric parse x else x)
            (zip (columns df) (map (\<lambda>(l, x). if l = c then to_numeric parse x else x) (zip (columns df) r))) =
          map (\<lambda>(l, x). if l \<in> set cs then to_numeric parse (if l = c then to_numeric parse x else x)
                          else (if l = c then to_numeric parse x else x)) (zip (columns df) r)"
      by (rule map_zip_compose [where G = "\<lambda>l x. if l \<in> set cs then to_numeric parse x else x"
            and F = "\<lambda>l x. if l = c then to_numeric parse x else x"])
    also have "\<dots> = map (\<lambda>(l, x). if l \<in> set (c # cs) then to_numeric parse x else x)
                        (zip (columns df) r)"
      by (intro map_cong refl) auto
    finally show ?thesis .
  qed
  ultimately show ?case using step by (simp add: comp_def)
qed

lemma wf_rowD: "wf_frame df \<Longrightarrow> r \<in> set (rows df) \<Longrightarrow> length r = length (columns df)"
  by (simp add: wf_frame_def list_all_iff)

lemma select_unique:
  assumes "\<forall>c\<in>set L. count_list (columns df) c = 1"
  shows "select L df =
         Inr \<lparr>columns = L, rows = map (\<lambda>r. concat (map (getcells (columns df) r) L)) (rows df)\<rparr>"
proof -
  have "map (\<lambda>c. filter (\<lambda>l. l = c) (columns df)) L = map (\<lambda>c. [c]) L"
  proof (rule map_cong [OF refl])
    fix c assume "c \<in> set L"
    then have "count_list (columns df) c = 1" using assms by blast
    then show "filter (\<lambda>l. l = c) (columns df) = [c]" by (rule filter_label_single)
  qed
  then have cs: "concat (map (\<lambda>c. filter (\<lambda>l. l = c) (columns df)) L) = L"
    by (simp only: concat_singletons) simp
  have "c \<in> set (columns df)" if "c \<in> set L" for c
    using assms that by (intro count_one_member) blast
  then have sub: "set L \<subseteq> set (columns df)" by blast
  show ?thesis unfolding select_def cs using sub by simp
qed

lemma coerce_select:
  assumes "wf_frame df" "\<forall>c\<in>set L. count_list (columns df) c = 1"
  shows "\<exists>df'. coerce parse L df = Inr df' \<and>
           select L df' =
           Inr \<lparr>columns = L,
                rows = map (\<lambda>r. map (to_numeric parse) (concat (map (getcells (columns df) r) L)))
                         (rows df)\<rparr>"
proof -
  define F where "F = (\<lambda>l x. if l \<in> set L then to_numeric parse x else x)"
  define df' where "df' = df\<lparr>rows := map (\<lambda>r. map (\<lambda>(l, x). F l x) (zip (columns df) r)) (rows df)\<rparr>"
  have co: "coerce parse L df = Inr df'"
    unfolding df'_def F_def using coerce_rows [OF assms] .
  have cols: "columns df' = columns df" by (simp add: df'_def)
  have rws: "rows df' = map (\<lambda>r. map (\<lambda>(l, x). F l x) (zip (columns df) r)) (rows df)"
    by (simp add: df'_def)
  have cnt: "\<forall>c\<in>set L. count_list (columns df') c = 1" using assms(2) cols by simp
  have row: "concat (map (getcells (columns df) (map (\<lambda>(l, x). F l x) (zip (columns df) r))) L) =
             map (to_numeric parse) (concat (map (getcells (columns df) r) L))" for r
  proof -
    have "map (getcells (columns df) (map (\<lambda>(l, x). F l x) (zip (columns df) r))) L =
          map (\<lambda>c. map (to_numeric parse) (getcells (columns df) r c)) L"
    proof (rule map_cong [OF refl])
      fix c assume c: "c \<in> set L"
      have "getcells (columns df) (map (\<lambda>(l, x). F l x) (zip (columns df) r)) c =
            map (F c) (getcells (columns df) r c)"
        by (rule getcells_map_zip)
      also have "F c = to_numeric parse" using c by (simp add: F_def)
      finally show "getcells (columns df) (map (\<lambda>(l, x). F l x) (zip (columns df) r)) c =
            map (to_numeric parse) (getcells (columns df) r c)" .
    qed
    also have "\<dots> = map (map (to_numeric parse)) (map (getcells (columns df) r) L)"
      by simp
    finally show ?thesis by (simp only: map_concat)
  qed
  have "select L df' =
        Inr \<lparr>columns = L, rows = map (\<lambda>r. concat (map (getcells (columns df') r) L)) (rows df')\<rparr>"
    using cnt by (rule select_unique)
  also have "map (\<lambda>r. concat (map (getcells (columns df') r) L)) (rows df') =
             map (\<lambda>r. map (to_numeric parse) (concat (map (getcells (columns df) r) L))) (rows df)"
    unfolding cols rws map_map comp_def row ..
  finally show ?thesis using co by blast
qed

lemma item_cells_length:
  assumes "length r = length cols" "\<forall>c\<in>set (X_COLS @ Y_COLS). count_list cols c = 1"
  shows "length (item_cells parse cols r) = 20"
proof -
  have "map (\<lambda>c. length (getcells cols r c)) (X_COLS @ Y_COLS) = map (\<lambda>c. 1) (X_COLS @ Y_COLS)"
  proof (rule map_cong [OF refl])
    fix c assume "c \<in> set (X_COLS @ Y_COLS)"
    then obtain x where "getcells cols r c = [x]"
      using getcells_single assms by blast
    then show "length (getcells cols r c) = 1" by simp
  qed
  then have "map length (map (getcells cols r) (X_COLS @ Y_COLS)) = map (\<lambda>c. 1) (X_COLS @ Y_COLS)"
    by (simp only: map_map comp_def)
  then have "length (concat (map (getcells cols r) (X_COLS @ Y_COLS))) =
             sum_list (map (\<lambda>c. 1) (X_COLS @ Y_COLS))"
    by (simp only: length_concat)
  also have "\<dots> = length (X_COLS @ Y_COLS)"
    by (simp only: sum_list_triv) simp
  also have "\<dots> = 20"
    by (simp add: X_COLS_def Y_COLS_def)
  finally show ?thesis by (simp add: item_cells_def)
qed

lemma assign_new:
  "c \<notin> set (columns df) \<Longrightarrow>
   assign c (map g (rows df)) df = \<lparr>columns = columns df @ [c], rows = map (\<lambda>r. r @ [g r]) (rows df)\<rparr>"
  by (simp add: assign_def map_zip_map_same [where h = "\<lambda>r v. r @ [v]"])

lemma drop_last_column:
  assumes "c \<notin> set cols" "length r = length cols"
  shows "map snd (filter (\<lambda>lv. fst lv \<notin> set [c]) (zip (cols @ [c]) (r @ [v]))) = r"
proof -
  have "filter (\<lambda>lv. fst lv \<notin> set [c]) (zip cols r) = zip cols r"
    using assms(1) by (auto simp: filter_id_conv dest: set_zip_leftD)
  then show ?thesis using assms(2) by simp
qed

lemma listwise_filter_rows:
  assumes "wf_frame F" "''valid_count'' \<notin> set (columns F)"
  shows "listwise_filter F = Inr (F\<lparr>rows := filter (\<lambda>r. 18 \<le> valid_count r) (rows F)\<rparr>)"
proof -
  let ?vc = "''valid_count''"
  let ?g = "\<lambda>r. Num (real (valid_count r))"
  let ?counted = "\<lparr>columns = columns F @ [?vc], rows = map (\<lambda>r. r @ [?g r]) (rows F)\<rparr>"
  have counted: "assign ?vc (map ?g (rows F)) F = ?counted"
    using assms(2) by (rule assign_new)
  have "map (\<lambda>r. getcells (columns F @ [?vc]) r ?vc) (map (\<lambda>r. r @ [?g r]) (rows F)) =
        map (\<lambda>r. [?g r]) (rows F)"
    unfolding map_map comp_def
  proof (rule map_cong [OF refl])
    fix r assume "r \<in> set (rows F)"
    then have "length r = length (columns F)" by (rule wf_rowD [OF assms(1)])
    then show "getcells (columns F @ [?vc]) (r @ [?g r]) ?vc = [?g r]"
      using assms(2) by (simp add: getcells_append getcells_absent getcells_Cons)
  qed
  then have "concat (map (\<lambda>r. getcells (columns F @ [?vc]) r ?vc) (map (\<lambda>r. r @ [?g r]) (rows F))) =
             map ?g (rows F)"
    by (simp only: concat_singletons)
  moreover have "count_list (columns F @ [?vc]) ?vc = 1"
    using assms(2) count_list_0_iff [of "columns F" ?vc] by simp
  ultimately have col: "getcol ?vc ?counted = Inr (map ?g (rows F))"
    by (simp add: getcol_def)
  have keep: "take_rows (map (\<lambda>v. ge v 18) (map ?g (rows F))) ?counted =
        \<lparr>columns = columns F @ [?vc],
         rows = map (\<lambda>r. r @ [?g r]) (filter (\<lambda>r. 18 \<le> valid_count r) (rows F))\<rparr>"
    using map_fst_filter_snd [of "\<lambda>r. r @ [?g r]" "rows F" "\<lambda>r. 18 \<le> valid_count r"]
    by (simp add: take_rows_def comp_def)
  have "map (\<lambda>r. map snd (filter (\<lambda>lv. fst lv \<notin> set [?vc]) (zip (columns F @ [?vc]) r)))
          (map (\<lambda>r. r @ [?g r]) (filter (\<lambda>r. 18 \<le> valid_count r) (rows F))) =
        filter (\<lambda>r. 18 \<le> valid_count r) (rows F)"
    unfolding map_map comp_def
  proof (rule map_idI)
    fix r assume "r \<in> set (filter (\<lambda>r. 18 \<le> valid_count r) (rows F))"
    then have "r \<in> set (rows F)" by simp
    then have "length r = length (columns F)" by (rule wf_rowD [OF assms(1)])
    then show "map snd (filter (\<lambda>lv. fst lv \<notin> set [?vc]) (zip (columns F @ [?vc]) (r @ [?g r]))) = r"
      using assms(2) by (rule drop_last_column [rotated])
  qed
  moreover have "filter (\<lambda>l. l \<notin> set [?vc]) (columns F @ [?vc]) = columns F"
    using assms(2) by (auto simp: filter_id_conv)
  ultimately have "drop_columns [?vc]
      \<lparr>columns = columns F @ [?vc],
       rows = map (\<lambda>r. r @ [?g r]) (filter (\<lambda>r. 18 \<le> valid_count r) (rows F))\<rparr> =
      Inr (F\<lparr>rows := filter (\<lambda>r. 18 \<le> valid_count r) (rows F)\<rparr>)"
    by (simp add: drop_columns_def)
  then show ?thesis
    unfolding listwise_filter_def counted Let_def col sum.case keep .
qed

lemma select_block:
  assumes "wf_frame G" "columns G = A @ B @ C" "distinct (A @ B @ C)"
  shows "select B G =
         Inr \<lparr>columns = B, rows = map (\<lambda>r. take (length B) (drop (length A) r)) (rows G)\<rparr>"
proof -
  have cnt: "\<forall>c\<in>set B. count_list (columns G) c = 1"
  proof
    fix c assume "c \<in> set B"
    then have "c \<in> set (columns G)" using assms(2) by simp
    moreover have "distinct (columns G)" using assms(2,3) by simp
    ultimately show "count_list (columns G) c = 1" by (rule distinct_count_one [rotated])
  qed
  have "map (\<lambda>r. concat (map (getcells (columns G) r) B)) (rows G) =
        map (\<lambda>r. take (length B) (drop (length A) r)) (rows G)"
  proof (rule map_cong [OF refl])
    fix r assume "r \<in> set (rows G)"
    then have "length r = length (A @ B @ C)"
      using wf_rowD [OF assms(1)] assms(2) by simp
    then show "concat (map (getcells (columns G) r) B) = take (length B) (drop (length A) r)"
      unfolding assms(2) by (rule getcells_block [OF assms(3)])
  qed
  then show ?thesis using select_unique [OF cnt] by simp
qed

lemma getcol_block:
  assumes "wf_frame G" "columns G = A @ [c] @ C" "distinct (A @ [c] @ C)"
  shows "getcol c G = Inr (concat (map (\<lambda>r. take 1 (drop (length A) r)) (rows G)))"
proof -
  have eq: "map (\<lambda>r. getcells (columns G) r c) (rows G) =
        map (\<lambda>r. take 1 (drop (length A) r)) (rows G)"
  proof (rule map_cong [OF refl])
    fix r assume "r \<in> set (rows G)"
    then have "length r = length (A @ [c] @ C)"
      using wf_rowD [OF assms(1)] assms(2) by simp
    then have "concat (map (getcells (A @ [c] @ C) r) [c]) = take (length [c]) (drop (length A) r)"
      by (rule getcells_block [OF assms(3)])
    then show "getcells (columns G) r c = take 1 (drop (length A) r)"
      unfolding assms(2) by simp
  qed
  have mem: "c \<in> set (columns G)" using assms(2) by simp
  have "distinct (columns G)" using assms(2,3) by simp
  then have cnt: "count_list (columns G) c = 1" using mem by (rule distinct_count_one)
  show ?thesis unfolding getcol_def eq using mem cnt by simp
qed

lemma wf_frame_extend:
  "wf_frame G \<Longrightarrow> wf_frame \<lparr>columns = columns G @ [c], rows = map (\<lambda>r. r @ [g r]) (rows G)\<rparr>"
  by (simp add: wf_frame_def list_all_iff)

lemma length_X_COLS: "length X_COLS = 10"
  by (simp add: X_COLS_def)

lemma length_Y_COLS: "length Y_COLS = 10"
  by (simp add: Y_COLS_def)

lemma distinct_all_columns: "distinct (X_COLS @ Y_COLS @ COMPOSITE_COLS)"
  by (simp add: X_COLS_def Y_COLS_def COMPOSITE_COLS_def)

lemma valid_count_not_item: "''valid_count'' \<notin> set (X_COLS @ Y_COLS)"
  by (simp add: X_COLS_def Y_COLS_def)

lemma add_block_column:
  assumes "wf_frame G" "columns G = A @ B @ C" "distinct (columns G @ [c])"
    and "length A = m" "length B = n"
  shows "\<exists>S. select B G = Inr S \<and>
           assign c (map f (rows S)) G =
           \<lparr>columns = columns G @ [c], rows = map (\<lambda>r. r @ [f (take n (drop m r))]) (rows G)\<rparr>"
proof -
  have d: "distinct (A @ B @ C)" and notin: "c \<notin> set (columns G)"
    using assms(2,3) by simp_all
  have sel: "select B G = Inr \<lparr>columns = B, rows = map (\<lambda>r. take n (drop m r)) (rows G)\<rparr>"
    using select_block [OF assms(1,2) d] assms(4,5) by simp
  have "assign c (map (\<lambda>r. f (take n (drop m r))) (rows G)) G =
        \<lparr>columns = columns G @ [c], rows = map (\<lambda>r. r @ [f (take n (drop m r))]) (rows G)\<rparr>"
    using notin by (rule assign_new)
  then show ?thesis using sel by (simp add: comp_def)
qed

lemma score_rows:
  assumes "wf_frame F" "columns F = X_COLS @ Y_COLS"
  shows "score F =
         Inr \<lparr>columns = X_COLS @ Y_COLS @ COMPOSITE_COLS,
              rows = map (\<lambda>r. r @ composites r) (rows F)\<rparr>"
proof -
  define G1 where "G1 = \<lparr>columns = columns F @ [''X_total''],
      rows = map (\<lambda>r. r @ [Num (nansum (take 10 (drop 0 r)))]) (rows F)\<rparr>"
  define G2 where "G2 = \<lparr>columns = columns G1 @ [''Y_total''],
      rows = map (\<lambda>r. r @ [Num (nansum (take 10 (drop 10 r)))]) (rows G1)\<rparr>"
  define G3 where "G3 = \<lparr>columns = columns G2 @ [''X_mean''],
      rows = map (\<lambda>r. r @ [nanmean (take 10 (drop 0 r))]) (rows G2)\<rparr>"
  define G4 where "G4 = \<lparr>columns = columns G3 @ [''Y_mean''],
      rows = map (\<lambda>r. r @ [nanmean (take 10 (drop 10 r))]) (rows G3)\<rparr>"
  have c1: "columns G1 = X_COLS @ Y_COLS @ [''X_total'']"
    by (simp add: G1_def assms(2))
  have c2: "columns G2 = X_COLS @ Y_COLS @ [''X_total'', ''Y_total'']"
    by (simp add: G2_def c1)
  have c3: "columns G3 = X_COLS @ Y_COLS @ [''X_total'', ''Y_total'', ''X_mean'']"
    by (simp add: G3_def c2)
  have w1: "wf_frame G1" unfolding G1_def using assms(1) by (rule wf_frame_extend)
  have w2: "wf_frame G2" unfolding G2_def using w1 by (rule wf_frame_extend)
  have w3: "wf_frame G3" unfolding G3_def using w2 by (rule wf_frame_extend)
  have d1: "distinct (columns F @ [''X_total''])"
    using distinct_all_columns by (simp add: assms(2) COMPOSITE_COLS_def)
  have d2: "distinct (columns G1 @ [''Y_total''])"
    using distinct_all_columns by (simp add: c1 COMPOSITE_COLS_def)
  have d3: "distinct (columns G2 @ [''X_mean''])"
    using distinct_all_columns by (simp add: c2 COMPOSITE_COLS_def)
  have d4: "distinct (columns G3 @ [''Y_mean''])"
    using distinct_all_columns by (simp add: c3 COMPOSITE_COLS_def)
  obtain S1 where s1: "select X_COLS F = Inr S1"
    and a1: "assign ''X_total'' (map (\<lambda>r. Num (nansum r)) (rows S1)) F = G1"
    using add_block_column [OF assms(1) _ d1, of "[]" X_COLS Y_COLS 0 10 "\<lambda>r. Num (nansum r)"]
    unfolding G1_def by (auto simp: assms(2) length_X_COLS)
  obtain S2 where s2: "select Y_COLS G1 = Inr S2"
    and a2: "assign ''Y_total'' (map (\<lambda>r. Num (nansum r)) (rows S2)) G1 = G2"
    using add_block_column [OF w1 _ d2, of X_COLS Y_COLS "[''X_total'']" 10 10 "\<lambda>r. Num (nansum r)"]
    unfolding G2_def by (auto simp: c1 length_X_COLS length_Y_COLS)
  obtain S3 where s3: "select X_COLS G2 = Inr S3"
    and a3: "assign ''X_mean'' (map nanmean (rows S3)) G2 = G3"
    using add_block_column [OF w2 _ d3, of "[]" X_COLS "Y_COLS @ [''X_total'', ''Y_total'']" 0 10 nanmean]
    unfolding G3_def by (auto simp: c2 length_X_COLS)
  obtain S4 where s4: "select Y_COLS G3 = Inr S4"
    and a4: "assign ''Y_mean'' (map nanmean (rows S4)) G3 = G4"
    using add_block_column [OF w3 _ d4, of X_COLS Y_COLS "[''X_total'', ''Y_total'', ''X_mean'']" 10 10 nanmean]
    unfolding G4_def by (auto simp: c3 length_X_COLS length_Y_COLS)
  have sc: "score F = Inr G4"
    by (simp add: score_def s1 s2 s3 s4 sum_axis1_def mean_axis1_def a1 a2 a3 a4)
  have cols: "columns G4 = X_COLS @ Y_COLS @ COMPOSITE_COLS"
    by (simp add: G4_def c3 COMPOSITE_COLS_def)
  define h1 where "h1 = (\<lambda>r. r @ [Num (nansum (take 10 (drop 0 r)))])"
  define h2 where "h2 = (\<lambda>r. r @ [Num (nansum (take 10 (drop 10 r)))])"
  define h3 where "h3 = (\<lambda>r. r @ [nanmean (take 10 (drop 0 r))])"
  define h4 where "h4 = (\<lambda>r. r @ [nanmean (take 10 (drop 10 r))])"
  have "rows G4 = map (\<lambda>r. h4 (h3 (h2 (h1 r)))) (rows F)"
    by (simp add: G4_def G3_def G2_def G1_def comp_def h1_def h2_def h3_def h4_def)
  also have "\<dots> = map (\<lambda>r. r @ composites r) (rows F)"
  proof (rule map_cong [OF refl])
    fix r assume "r \<in> set (rows F)"
    then have len: "length r = 20"
      using wf_rowD [OF assms(1)] by (simp add: assms(2) length_X_COLS length_Y_COLS)
    have e1: "h1 r = r @ [Num (nansum (take 10 r))]"
      by (simp add: h1_def)
    have e2: "h2 (h1 r) = r @ [Num (nansum (take 10 r)), Num (nansum (drop 10 r))]"
      using len by (simp add: h2_def e1)
    have e3: "h3 (h2 (h1 r)) =
              r @ [Num (nansum (take 10 r)), Num (nansum (drop 10 r)), nanmean (take 10 r)]"
      using len by (simp add: h3_def e2)
    show "h4 (h3 (h2 (h1 r))) = r @ composites r"
      using len by (simp add: h4_def e3 composites_def)
  qed
  finally have "G4 = \<lparr>columns = X_COLS @ Y_COLS @ COMPOSITE_COLS,
              rows = map (\<lambda>r. r @ composites r) (rows F)\<rparr>"
    using cols by simp
  then show ?thesis using sc by simp
qed

lemma wf_strip_columns: "wf_frame df \<Longrightarrow> wf_frame (strip_columns df)"
  by (simp add: wf_frame_def strip_columns_def)

lemma missing_iff:
  "(missing_x df \<noteq> [] \<or> missing_y df \<noteq> []) \<longleftrightarrow> \<not> set (X_COLS @ Y_COLS) \<subseteq> set (columns df)"
  by (auto simp: missing_x_def missing_y_def filter_empty_conv)

lemma coerce_duplicate:
  assumes "wf_frame df" "set L \<subseteq> set (columns df)" "\<exists>c\<in>set L. count_list (columns df) c \<noteq> 1"
  shows "coerce parse L df = Inl (Raised ''TypeError'')"
  using assms
proof (induction L arbitrary: df)
  case Nil
  then show ?case by simp
next
  case (Cons c cs)
  show ?case
  proof (cases "count_list (columns df) c = 1")
    case False
    then show ?thesis using Cons.prems(2) by (simp add: getcol_def)
  next
    case True
    let ?df1 = "df\<lparr>rows := map (\<lambda>r. map (\<lambda>(l, x). if l = c then to_numeric parse x else x)
                                     (zip (columns df) r)) (rows df)\<rparr>"
    have step: "coerce parse (c # cs) df = coerce parse cs ?df1"
      using getcol_single [OF Cons.prems(1) True]
        coerce_one [OF Cons.prems(1) True, of "to_numeric parse"]
      by simp
    have wf1: "wf_frame ?df1" using Cons.prems(1) by (rule wf_frame_map_zip)
    have sub: "set cs \<subseteq> set (columns ?df1)" using Cons.prems(2) by simp
    have bad: "\<exists>c\<in>set cs. count_list (columns ?df1) c \<noteq> 1"
      using Cons.prems(3) True by auto
    show ?thesis using Cons.IH [OF wf1 sub bad] step by simp
  qed
qed

lemma wf_items:
  assumes "wf_frame df" "\<forall>c\<in>set (X_COLS @ Y_COLS). count_list (columns df) c = 1"
  shows "wf_frame \<lparr>columns = X_COLS @ Y_COLS, rows = map (item_cells parse (columns df)) (rows df)\<rparr>"
proof -
  have "length (item_cells parse (columns df) r) = length (X_COLS @ Y_COLS)"
    if "r \<in> set (rows df)" for r
    using item_cells_length [OF wf_rowD [OF assms(1) that] assms(2)]
    by (simp add: length_X_COLS length_Y_COLS)
  then show ?thesis by (simp add: wf_frame_def list_all_iff)
qed

lemma prepare_cases:
  assumes "wf_frame df"
  shows "prepare parse df =
     (if \<not> set (X_COLS @ Y_COLS) \<subseteq> set (map strip (columns df))
      then Inl (MissingColumns [c \<leftarrow> X_COLS. c \<notin> set (map strip (columns df))]
                               [c \<leftarrow> Y_COLS. c \<notin> set (map strip (columns df))])
      else if \<exists>c\<in>set (X_COLS @ Y_COLS). count_list (map strip (columns df)) c \<noteq> 1
      then Inl (Raised ''TypeError'')
      else if kept_rows parse df = [] then Inl NoValidRespondents
      else Inr \<lparr>columns = X_COLS @ Y_COLS @ COMPOSITE_COLS,
                rows = map (\<lambda>r. r @ composites r) (kept_rows parse df)\<rparr>)"
proof -
  let ?df = "strip_columns df"
  have cols: "columns ?df = map strip (columns df)" and rws: "rows ?df = rows df"
    by (simp_all add: strip_columns_def)
  have wf: "wf_frame ?df" using assms by (rule wf_strip_columns)
  show ?thesis
  proof (cases "set (X_COLS @ Y_COLS) \<subseteq> set (map strip (columns df))")
    case False
    then have "missing_x ?df \<noteq> [] \<or> missing_y ?df \<noteq> []"
      using missing_iff [of ?df] cols by simp
    then show ?thesis using False
      by (simp add: prepare_def Let_def) (simp add: missing_x_def missing_y_def cols)
  next
    case True
    then have nomiss: "\<not> (missing_x ?df \<noteq> [] \<or> missing_y ?df \<noteq> [])"
      using missing_iff [of ?df] cols by simp
    show ?thesis
    proof (cases "\<exists>c\<in>set (X_COLS @ Y_COLS). count_list (map strip (columns df)) c \<noteq> 1")
      case dup: True
      have "coerce parse (X_COLS @ Y_COLS) ?df = Inl (Raised ''TypeError'')"
        using wf True dup unfolding cols [symmetric] by (rule coerce_duplicate)
      then show ?thesis using True dup nomiss by (simp add: prepare_def Let_def)
    next
      case False
      then have uniq: "\<forall>c\<in>set (X_COLS @ Y_COLS). count_list (columns ?df) c = 1"
        unfolding cols by blast
      let ?items = "\<lparr>columns = X_COLS @ Y_COLS,
                     rows = map (item_cells parse (columns ?df)) (rows ?df)\<rparr>"
      obtain df' where co: "coerce parse (X_COLS @ Y_COLS) ?df = Inr df'"
        and sel: "select (X_COLS @ Y_COLS) df' = Inr ?items"
        using coerce_select [OF wf uniq, of parse] unfolding item_cells_def by blast
      have wfi: "wf_frame ?items" using wf uniq by (rule wf_items)
      have "''valid_count'' \<notin> set (columns ?items)"
        using valid_count_not_item by simp
      then have lf: "listwise_filter ?items =
          Inr (?items\<lparr>rows := filter (\<lambda>r. 18 \<le> valid_count r) (rows ?items)\<rparr>)"
        using wfi by (rule listwise_filter_rows [rotated])
      let ?clean = "\<lparr>columns = X_COLS @ Y_COLS, rows = kept_rows parse df\<rparr>"
      have clean: "?items\<lparr>rows := filter (\<lambda>r. 18 \<le> valid_count r) (rows ?items)\<rparr> = ?clean"
        by (simp add: kept_rows_def cols rws)
      have wfc: "wf_frame ?clean"
        using wfi by (auto simp: wf_frame_def list_all_iff kept_rows_def cols rws)
      have sc: "score ?clean =
          Inr \<lparr>columns = X_COLS @ Y_COLS @ COMPOSITE_COLS,
               rows = map (\<lambda>r. r @ composites r) (rows ?clean)\<rparr>"
        using wfc by (rule score_rows) simp
      have "prepare parse df =
            (if length (rows ?clean) = 0 then Inl NoValidRespondents else score ?clean)"
        unfolding prepare_def Let_def using nomiss co sel lf clean by simp
      then show ?thesis using True False sc by simp
    qed
  qed
qed

section \<open>The run after the composite scores\<close>

lemma wf_scored: "list_all (\<lambda>r. length r = 20) K \<Longrightarrow> wf_frame (scored K)"
  by (simp add: wf_frame_def scored_def list_all_iff composites_def length_X_COLS length_Y_COLS
      COMPOSITE_COLS_def)

lemma select_x_scored:
  assumes "list_all (\<lambda>r. length r = 20) K"
  shows "select X_COLS (scored K) = Inr \<lparr>columns = X_COLS, rows = map (take 10) K\<rparr>"
proof -
  have "select X_COLS (scored K) =
        Inr \<lparr>columns = X_COLS,
             rows = map (\<lambda>r. take (length X_COLS) (drop (length ([]::string list)) r)) (rows (scored K))\<rparr>"
    using wf_scored [OF assms] distinct_all_columns
    by (intro select_block [where C = "Y_COLS @ COMPOSITE_COLS"]) (simp_all add: scored_def)
  moreover have "map (\<lambda>r. take (length X_COLS) (drop (length ([]::string list)) r)) (rows (scored K)) =
                 map (take 10) K"
    unfolding scored_def using assms
    by (simp add: length_X_COLS list_all_iff)
  ultimately show ?thesis by simp
qed

lemma select_y_scored:
  assumes "list_all (\<lambda>r. length r = 20) K"
  shows "select Y_COLS (scored K) = Inr \<lparr>columns = Y_COLS, rows = map (drop 10) K\<rparr>"
proof -
  have "select Y_COLS (scored K) =
        Inr \<lparr>columns = Y_COLS,
             rows = map (\<lambda>r. take (length Y_COLS) (drop (length X_COLS) r)) (rows (scored K))\<rparr>"
    using wf_scored [OF assms] distinct_all_columns
    by (intro select_block [where C = "COMPOSITE_COLS"]) (simp_all add: scored_def)
  moreover have "map (\<lambda>r. take (length Y_COLS) (drop (length X_COLS) r)) (rows (scored K)) =
                 map (drop 10) K"
    unfolding scored_def using assms
    by (simp add: length_X_COLS length_Y_COLS list_all_iff)
  ultimately show ?thesis by simp
qed

lemma getcol_x_total:
  assumes "list_all (\<lambda>r. length r = 20) K"
  shows "getcol ''X_total'' (scored K) = Inr (x_totals K)"
proof -
  have "getcol ''X_total'' (scored K) =
        Inr (concat (map (\<lambda>r. take 1 (drop (length (X_COLS @ Y_COLS)) r)) (rows (scored K))))"
    using wf_scored [OF assms] distinct_all_columns
    by (intro getcol_block [where C = "[''Y_total'', ''X_mean'', ''Y_mean'']"])
       (simp_all add: scored_def COMPOSITE_COLS_def)
  moreover have "map (\<lambda>r. take 1 (drop (length (X_COLS @ Y_COLS)) r)) (rows (scored K)) =
                 map (\<lambda>r. [Num (nansum (take 10 r))]) K"
    unfolding scored_def using assms
    by (simp add: length_X_COLS length_Y_COLS list_all_iff composites_def)
  ultimately show ?thesis by (simp only: concat_singletons x_totals_def)
qed

lemma getcol_y_total:
  assumes "list_all (\<lambda>r. length r = 20) K"
  shows "getcol ''Y_total'' (scored K) = Inr (y_totals K)"
proof -
  have "getcol ''Y_total'' (scored K) =
        Inr (concat (map (\<lambda>r. take 1 (drop (length (X_COLS @ Y_COLS @ [''X_total''])) r))
                      (rows (scored K))))"
    using wf_scored [OF assms] distinct_all_columns
    by (intro getcol_block [where C = "[''X_mean'', ''Y_mean'']"])
       (simp_all add: scored_def COMPOSITE_COLS_def)
  moreover have "map (\<lambda>r. take 1 (drop (length (X_COLS @ Y_COLS @ [''X_total''])) r))
                   (rows (scored K)) =
                 map (\<lambda>r. [Num (nansum (drop 10 r))]) K"
    unfolding scored_def using assms
    by (simp add: length_X_COLS length_Y_COLS list_all_iff composites_def)
  ultimately show ?thesis by (simp only: concat_singletons y_totals_def)
qed

lemma statistics_scored:
  assumes "list_all (\<lambda>r. length r = 20) K"
  shows "statistics lib fmt (scored K) =
     (case shapiro lib (x_totals K) of Inl e \<Rightarrow> Inl e | Inr sx \<Rightarrow>
      case shapiro lib (y_totals K) of Inl e \<Rightarrow> Inl e | Inr sy \<Rightarrow>
      case (if select_method (snd sx) (snd sy) = Pearson
            then pearsonr lib (x_totals K) (y_totals K)
            else spearmanr lib (x_totals K) (y_totals K)) of
        Inl e \<Rightarrow> Inl e
      | Inr (r, p) \<Rightarrow>
          Inr \<lparr>n_respondents = length K,
               table = scored K,
               alpha_x = cronbach_alpha \<lparr>columns = X_COLS, rows = map (take 10) K\<rparr>,
               alpha_y = cronbach_alpha \<lparr>columns = Y_COLS, rows = map (drop 10) K\<rparr>,
               shapiro_x = sx,
               shapiro_y = sy,
               chosen = select_method (snd sx) (snd sy),
               r_value = r,
               p_value = p,
               conclusion = classify p,
               csv_bytes = encode_utf8 (to_csv fmt (scored K))\<rparr>)"
proof -
  have n: "length (rows (scored K)) = length K" by (simp add: scored_def)
  show ?thesis
    unfolding statistics_def select_x_scored [OF assms] select_y_scored [OF assms]
      getcol_x_total [OF assms] getcol_y_total [OF assms] sum.case Let_def n ..
qed

lemma kept_rows_length:
  assumes "wf_frame df" "\<forall>c\<in>set (X_COLS @ Y_COLS). count_list (map strip (columns df)) c = 1"
  shows "list_all (\<lambda>r. length r = 20) (kept_rows parse df)"
proof -
  have "length (item_cells parse (map strip (columns df)) r) = 20" if "r \<in> set (rows df)" for r
  proof -
    have "length r = length (map strip (columns df))"
      using wf_rowD [OF assms(1) that] by simp
    then show ?thesis using assms(2) by (rule item_cells_length)
  qed
  then show ?thesis by (auto simp: kept_rows_def list_all_iff)
qed

section \<open>The retained rows\<close>










lemma prepare_Inr:
  assumes "wf_frame df" "prepare parse df = Inr G"
  shows "G = scored (kept_rows parse df) \<and> kept_rows parse df \<noteq> [] \<and>
         set (X_COLS @ Y_COLS) \<subseteq> set (map strip (columns df)) \<and>
         (\<forall>c\<in>set (X_COLS @ Y_COLS). count_list (map strip (columns df)) c = 1)"
  using assms(2) unfolding prepare_cases [OF assms(1)] scored_def
  by (simp split: if_splits)


section \<open>The sample table, step by step\<close>

lemma demo_header: "map strip (columns demo_raw) = ''Timestamp'' # X_COLS @ Y_COLS"
  by (simp add: demo_raw_def X_COLS_def Y_COLS_def strip_def is_space_def)

lemma demo_wf: "wf_frame demo_raw"
  by (simp add: wf_frame_def demo_raw_def full_row_def raw_18_def row_17_def
      length_X_COLS length_Y_COLS)

lemma demo_distinct: "distinct (''Timestamp'' # X_COLS @ Y_COLS)"
  by (simp add: X_COLS_def Y_COLS_def)

lemma demo_unique: "\<forall>c\<in>set (X_COLS @ Y_COLS). count_list (map strip (columns demo_raw)) c = 1"
proof
  fix c assume "c \<in> set (X_COLS @ Y_COLS)"
  then have "c \<in> set (''Timestamp'' # X_COLS @ Y_COLS)" by simp
  then show "count_list (map strip (columns demo_raw)) c = 1"
    unfolding demo_header using demo_distinct by (intro distinct_count_one)
qed

lemma demo_item_cells:
  assumes "length cells = 20"
  shows "item_cells parse (''Timestamp'' # X_COLS @ Y_COLS) (t # cells) = map (to_numeric parse) cells"
proof -
  have "concat (map (getcells ([''Timestamp''] @ (X_COLS @ Y_COLS) @ []) (t # cells)) (X_COLS @ Y_COLS)) =
        take (length (X_COLS @ Y_COLS)) (drop (length [''Timestamp'']) (t # cells))"
    using demo_distinct assms
    by (intro getcells_block) (simp_all add: length_X_COLS length_Y_COLS)
  then show ?thesis
    using assms by (simp add: item_cells_def length_X_COLS length_Y_COLS)
qed

lemma demo_kept: "kept_rows parse_digits demo_raw = [full_row, row_18]"
proof -
  have a: "item_cells parse_digits (''Timestamp'' # X_COLS @ Y_COLS) (Text ''a'' # full_row) = full_row"
    by (subst demo_item_cells) (simp_all add: full_row_def)
  have b: "item_cells parse_digits (''Timestamp'' # X_COLS @ Y_COLS) (Text ''b'' # raw_18) = row_18"
    by (subst demo_item_cells) (simp_all add: raw_18_def row_18_def parse_digits_def)
  have c: "item_cells parse_digits (''Timestamp'' # X_COLS @ Y_COLS) (Text ''c'' # row_17) = row_17"
    by (subst demo_item_cells) (simp_all add: row_17_def)
  have v: "valid_count full_row = 20" "valid_count row_18 = 18" "valid_count row_17 = 17"
    by (simp_all add: valid_count_def notna_def full_row_def row_18_def row_17_def)
  have "rows demo_raw = [Text ''a'' # full_row, Text ''b'' # raw_18, Text ''c'' # row_17]"
    by (simp add: demo_raw_def)
  then show ?thesis
    unfolding kept_rows_def demo_header by (simp add: a b c v)
qed

lemma demo_prepare: "prepare parse_digits demo_raw = Inr (scored [full_row, row_18])"
proof -
  have "set (X_COLS @ Y_COLS) \<subseteq> set (map strip (columns demo_raw))"
    unfolding demo_header by auto
  then show ?thesis
    unfolding prepare_cases [OF demo_wf] demo_kept scored_def
    using demo_unique by simp
qed

lemma demo_statistics:
  "statistics scipy_nan demo_fmt (scored [full_row, row_18]) = Inr demo_report"
proof -
  have "list_all (\<lambda>r. length r = 20) [full_row, row_18]"
    by (simp add: full_row_def row_18_def)
  then have "statistics scipy_nan demo_fmt (scored [full_row, row_18]) =
     (case shapiro scipy_nan (x_totals [full_row, row_18]) of Inl e \<Rightarrow> Inl e | Inr sx \<Rightarrow>
      case shapiro scipy_nan (y_totals [full_row, row_18]) of Inl e \<Rightarrow> Inl e | Inr sy \<Rightarrow>
      case (if select_method (snd sx) (snd sy) = Pearson
            then pearsonr scipy_nan (x_totals [full_row, row_18]) (y_totals [full_row, row_18])
            else spearmanr scipy_nan (x_totals [full_row, row_18]) (y_totals [full_row, row_18])) of
        Inl e \<Rightarrow> Inl e
      | Inr (r, p) \<Rightarrow>
          Inr \<lparr>n_respondents = length [full_row, row_18],
               table = scored [full_row, row_18],
               alpha_x = cronbach_alpha \<lparr>columns = X_COLS, rows = map (take 10) [full_row, row_18]\<rparr>,
               alpha_y = cronbach_alpha \<lparr>columns = Y_COLS, rows = map (drop 10) [full_row, row_18]\<rparr>,
               shapiro_x = sx,
               shapiro_y = sy,
               chosen = select_method (snd sx) (snd sy),
               r_value = r,
               p_value = p,
               conclusion = classify p,
               csv_bytes = encode_utf8 (to_csv demo_fmt (scored [full_row, row_18]))\<rparr>)"
    by (rule statistics_scored)
  also have "\<dots> = Inr demo_report"
    by (simp add: scipy_nan_def select_method_def classify_def demo_report_def)
  finally show ?thesis .
qed

lemma analyse_Inr:
  assumes "analyse parse lib fmt df = Inr rep"
  shows "\<exists>G. prepare parse df = Inr G \<and> statistics lib fmt G = Inr rep"
  using assms by (cases "prepare parse df") (simp_all add: analyse_def)

lemma statistics_table:
  assumes "statistics lib fmt G = Inr rep"
  shows "table rep = G \<and> csv_bytes rep = encode_utf8 (to_csv fmt G) \<and>
         n_respondents rep = length (rows G)"
  using assms unfolding statistics_def Let_def
  by (auto split: sum.splits prod.splits)

lemma demo_analyse: "analyse parse_digits scipy_nan demo_fmt demo_raw = Inr demo_report"
  by (simp add: analyse_def demo_prepare demo_statistics)

lemma analyse_cases:
  assumes "wf_frame df" "set (X_COLS @ Y_COLS) \<subseteq> set (map strip (columns df))"
    and "\<forall>c\<in>set (X_COLS @ Y_COLS). count_list (map strip (columns df)) c = 1"
  shows "analyse parse lib fmt df =
         (if kept_rows parse df = [] then Inl NoValidRespondents
          else statistics lib fmt (scored (kept_rows parse df)))"
  unfolding analyse_def prepare_cases [OF assms(1)] scored_def using assms(2,3) by simp

lemma none_header: "map strip (columns demo_none) = X_COLS @ Y_COLS"
  by (simp add: demo_none_def X_COLS_def Y_COLS_def strip_def is_space_def)

lemma none_wf: "wf_frame demo_none"
  by (simp add: wf_frame_def demo_none_def row_17_def length_X_COLS length_Y_COLS)

lemma none_unique: "\<forall>c\<in>set (X_COLS @ Y_COLS). count_list (map strip (columns demo_none)) c = 1"
proof
  fix c assume "c \<in> set (X_COLS @ Y_COLS)"
  with distinct_item_columns show "count_list (map strip (columns demo_none)) c = 1"
    unfolding none_header by (rule distinct_count_one)
qed

lemma none_kept: "kept_rows parse_digits demo_none = []"
proof -
  have "concat (map (getcells (X_COLS @ Y_COLS) row_17) (X_COLS @ Y_COLS)) = row_17"
    using distinct_item_columns
    by (rule getcells_all) (simp add: row_17_def length_X_COLS length_Y_COLS)
  then have "item_cells parse_digits (X_COLS @ Y_COLS) row_17 = row_17"
    unfolding item_cells_def by (simp add: row_17_def)
  moreover have "valid_count row_17 = 17"
    by (simp add: valid_count_def notna_def row_17_def)
  moreover have "rows demo_none = [row_17]"
    by (simp add: demo_none_def)
  ultimately show ?thesis
    unfolding kept_rows_def none_header by simp
qed

lemma demo_present: "set (X_COLS @ Y_COLS) \<subseteq> set (map strip (columns demo_raw))"
  unfolding demo_header by auto

section \<open>The reliability coefficient\<close>















section \<open>The exported text\<close>

text \<open>
  The 24 labels of the exported table hold no comma, quote or line break, so that
  \<^verbatim>\<open>to_csv\<close> quotes none of them, and they are ASCII, so that their UTF-8 encoding
  is one byte per character.
\<close>

lemma labels_need_no_quoting:
  "list_all (list_all (\<lambda>ch. ch \<notin> {CHR '','', CHR 0x22, CHR 0x0A, CHR 0x0D}))
     (X_COLS @ Y_COLS @ COMPOSITE_COLS)"
  by (simp add: X_COLS_def Y_COLS_def COMPOSITE_COLS_def)

lemma encode_utf8_ascii:
  "list_all (\<lambda>c. (of_char c :: nat) < 128) s \<Longrightarrow> encode_utf8 s = map (\<lambda>c. of_nat (of_char c)) s"
  by (induction s) (simp_all add: encode_utf8_def)

lemma labels_ascii:
  "list_all (list_all (\<lambda>c. (of_char c :: nat) < 128)) (X_COLS @ Y_COLS @ COMPOSITE_COLS)"
  by (simp add: X_COLS_def Y_COLS_def COMPOSITE_COLS_def)

section \<open>The claims\<close>

text \<open>
  C1, as the script has it. The script has no check of the sample size before the
  normality test. For every table whose trimmed header has each of the twenty item labels
  exactly once: with no retained respondent the run halts with the error of line 109
  before the test. With one or more,
  fewer than three included, it calls the library's test on \<open>X_total\<close> and then on
  \<open>Y_total\<close>; a call that raises ends the run with that exception; when both return,
  what they return is reported as it is and the run goes on, with Pearson if both
  p-values are numbers above 0.05 and with Spearman otherwise, so also when a p-value is
  NaN.
\<close>

theorem normality_unguarded:
  assumes "wf_frame df" "set (X_COLS @ Y_COLS) \<subseteq> set (map strip (columns df))"
    and "\<forall>c\<in>set (X_COLS @ Y_COLS). count_list (map strip (columns df)) c = 1"
    and "K = kept_rows parse df"
  shows "analyse parse lib fmt df =
     (if K = [] then Inl NoValidRespondents
      else
        case shapiro lib (x_totals K) of Inl e \<Rightarrow> Inl e | Inr sx \<Rightarrow>
        case shapiro lib (y_totals K) of Inl e \<Rightarrow> Inl e | Inr sy \<Rightarrow>
        case (if gt (snd sx) 0.05 \<and> gt (snd sy) 0.05
              then pearsonr lib (x_totals K) (y_totals K)
              else spearmanr lib (x_totals K) (y_totals K)) of
          Inl e \<Rightarrow> Inl e
        | Inr (r, p) \<Rightarrow>
            Inr \<lparr>n_respondents = length K,
                 table = scored K,
                 alpha_x = cronbach_alpha \<lparr>columns = X_COLS, rows = map (take 10) K\<rparr>,
                 alpha_y = cronbach_alpha \<lparr>columns = Y_COLS, rows = map (drop 10) K\<rparr>,
                 shapiro_x = sx,
                 shapiro_y = sy,
                 chosen = (if gt (snd sx) 0.05 \<and> gt (snd sy) 0.05 then Pearson else Spearman),
                 r_value = r,
                 p_value = p,
                 conclusion = classify p,
                 csv_bytes = encode_utf8 (to_csv fmt (scored K))\<rparr>) \<and>
     \<not> gt None 0.05"
proof -
  have len: "list_all (\<lambda>r. length r = 20) K"
    unfolding assms(4) using assms(1,3) by (rule kept_rows_length)
  have an: "analyse parse lib fmt df =
         (if K = [] then Inl NoValidRespondents else statistics lib fmt (scored K))"
    unfolding assms(4) using assms(1,2,3) by (rule analyse_cases)
  have m: "((if c then Pearson else Spearman) = Pearson) = c" for c
    by simp
  show ?thesis
    unfolding an statistics_scored [OF len] select_method_def m by simp
qed

theorem normality_unguarded_witness:
  "wf_frame demo_raw \<and> set (X_COLS @ Y_COLS) \<subseteq> set (map strip (columns demo_raw)) \<and>
   list_all (\<lambda>c. count_list (map strip (columns demo_raw)) c = 1) (X_COLS @ Y_COLS) \<and>
   [full_row, row_18] = kept_rows parse_digits demo_raw \<and>
   analyse parse_digits scipy_min3 demo_fmt demo_raw = Inl (Raised ''ValueError'') \<and>
   analyse parse_digits scipy_nan demo_fmt demo_raw = Inr demo_report \<and>
   chosen demo_report = Spearman \<and> shapiro_x demo_report = (None, None)"
proof -
  have k: "[full_row, row_18] = kept_rows parse_digits demo_raw"
    by (simp add: demo_kept)
  have u: "list_all (\<lambda>c. count_list (map strip (columns demo_raw)) c = 1) (X_COLS @ Y_COLS)"
    using demo_unique unfolding list_all_iff .
  have a: "analyse parse_digits scipy_min3 demo_fmt demo_raw = Inl (Raised ''ValueError'')"
    using normality_unguarded [OF demo_wf demo_present demo_unique k, of scipy_min3 demo_fmt]
    by (simp add: scipy_min3_def x_totals_def)
  have b: "analyse parse_digits scipy_nan demo_fmt demo_raw = Inr demo_report"
    using normality_unguarded [OF demo_wf demo_present demo_unique k, of scipy_nan demo_fmt]
    by (simp add: scipy_nan_def demo_report_def classify_def)
  show ?thesis
    using demo_wf demo_present u k a b by (simp add: demo_report_def)
qed

text \<open>
  C1 as stated fails: under a library whose normality test rejects fewer than three
  observations, the run on the sample table, which retains two respondents, halts with
  the exception of the test; and a run that retains no respondent halts at line 109.
\<close>

theorem normality_below_three_counterexample:
  "length (kept_rows parse_digits demo_raw) = 2 \<and>
   analyse parse_digits scipy_min3 demo_fmt demo_raw = Inl (Raised ''ValueError'') \<and>
   length (kept_rows parse_digits demo_none) = 0 \<and>
   analyse parse_digits scipy_nan demo_fmt demo_none = Inl NoValidRespondents"
proof -
  have len: "list_all (\<lambda>r. length r = 20) [full_row, row_18]"
    by (simp add: full_row_def row_18_def)
  have "statistics scipy_min3 demo_fmt (scored [full_row, row_18]) = Inl (Raised ''ValueError'')"
    unfolding statistics_scored [OF len] by (simp add: scipy_min3_def x_totals_def)
  then have a: "analyse parse_digits scipy_min3 demo_fmt demo_raw = Inl (Raised ''ValueError'')"
    unfolding analyse_cases [OF demo_wf demo_present demo_unique] demo_kept by simp
  have b: "analyse parse_digits scipy_nan demo_fmt demo_none = Inl NoValidRespondents"
    unfolding analyse_cases [OF none_wf _ none_unique, unfolded none_header, simplified] none_kept
    by simp
  show ?thesis using a b by (simp add: demo_kept none_kept)
qed

text \<open>
  C2, as the script has it. The script builds a table of the twenty item columns only
  (line 99) and works on that from then on. A complete run exports the twenty item
  columns in the order of the two lists, then \<open>X_total\<close>, \<open>Y_total\<close>,
  \<open>X_mean\<close>, \<open>Y_mean\<close>; one row per retained respondent, holding the converted
  item cells and the four composite scores; written as a header line and one line per
  row, fields joined by commas, and encoded in UTF-8. Columns of the upload that are not
  item columns are not exported.
\<close>

theorem exported_table:
  assumes "wf_frame df" "analyse parse lib fmt df = Inr rep"
  shows "columns (table rep) = X_COLS @ Y_COLS @ [''X_total'', ''Y_total'', ''X_mean'', ''Y_mean''] \<and>
         rows (table rep) =
           map (\<lambda>r. r @ composites r)
             (filter (\<lambda>r. 18 \<le> valid_count r)
                (map (item_cells parse (map strip (columns df))) (rows df))) \<and>
         csv_bytes rep = encode_utf8 (to_csv fmt (table rep)) \<and>
         to_csv fmt (table rep) =
           join '','' (columns (table rep)) @ linesep fmt @
           concat (map (\<lambda>r. join '','' (map (render (float_repr fmt)) r) @ linesep fmt)
                       (rows (table rep)))"
proof -
  obtain G where p: "prepare parse df = Inr G" and s: "statistics lib fmt G = Inr rep"
    using analyse_Inr [OF assms(2)] by blast
  have G: "G = scored (kept_rows parse df)"
    using prepare_Inr [OF assms(1) p] by simp
  have t: "table rep = G" "csv_bytes rep = encode_utf8 (to_csv fmt G)"
    using statistics_table [OF s] by simp_all
  have "to_csv fmt G =
           join '','' (columns G) @ linesep fmt @
           concat (map (\<lambda>r. join '','' (map (render (float_repr fmt)) r) @ linesep fmt) (rows G))"
    by (simp add: to_csv_def comp_def)
  then show ?thesis
    unfolding t using G by (simp add: scored_def kept_rows_def COMPOSITE_COLS_def)
qed

theorem exported_table_witness:
  "wf_frame demo_raw \<and> analyse parse_digits scipy_nan demo_fmt demo_raw = Inr demo_report \<and>
   columns (table demo_report) =
     X_COLS @ Y_COLS @ [''X_total'', ''Y_total'', ''X_mean'', ''Y_mean''] \<and>
   rows (table demo_report) = [full_row @ composites full_row, row_18 @ composites row_18] \<and>
   csv_bytes demo_report = encode_utf8 (to_csv demo_fmt (table demo_report))"
proof -
  have "filter (\<lambda>r. 18 \<le> valid_count r)
          (map (item_cells parse_digits (map strip (columns demo_raw))) (rows demo_raw)) =
        [full_row, row_18]"
    using demo_kept by (simp add: kept_rows_def)
  then show ?thesis
    using exported_table [OF demo_wf demo_analyse] demo_wf demo_analyse by simp
qed

text \<open>
  C2 as stated fails: the sample table has a \<open>Timestamp\<close> column, and the table
  exported for it has the 24 columns above, not the 21 of the upload and four more.
\<close>

theorem export_drops_other_columns_counterexample:
  "''Timestamp'' \<in> set (columns demo_raw) \<and>
   analyse parse_digits scipy_nan demo_fmt demo_raw = Inr demo_report \<and>
   columns (table demo_report) = X_COLS @ Y_COLS @ COMPOSITE_COLS \<and>
   ''Timestamp'' \<notin> set (columns (table demo_report)) \<and>
   length (columns (table demo_report)) = 24 \<and>
   length (columns demo_raw) + 4 = 25"
proof -
  have a: "''Timestamp'' \<in> set (columns demo_raw)" and b: "length (columns demo_raw) = 21"
    by (simp_all add: demo_raw_def length_X_COLS length_Y_COLS)
  have c: "columns (table demo_report) = X_COLS @ Y_COLS @ COMPOSITE_COLS"
    by (simp add: demo_report_def scored_def)
  have d: "''Timestamp'' \<notin> set (X_COLS @ Y_COLS @ COMPOSITE_COLS)"
    by (simp add: X_COLS_def Y_COLS_def COMPOSITE_COLS_def)
  have e: "length (X_COLS @ Y_COLS @ COMPOSITE_COLS) = 24"
    by (simp add: length_X_COLS length_Y_COLS COMPOSITE_COLS_def)
  show ?thesis
    unfolding c using a b d e demo_analyse by simp
qed

text \<open>
  C3. The parametric coefficient (Pearson) is chosen exactly when both normality
  p-values are numbers strictly greater than 0.05; in every other case the rank-based
  coefficient (Spearman) is chosen. A p-value equal to 0.05, or NaN, on either side
  gives Spearman. This is the rule a complete run applies to the two p-values it
  reports.
\<close>

theorem method_selection:
  "(select_method px py = Pearson \<longleftrightarrow>
      (\<exists>x y. px = Some x \<and> py = Some y \<and> 0.05 < x \<and> 0.05 < y)) \<and>
   (select_method px py = Spearman \<longleftrightarrow>
      \<not> (\<exists>x y. px = Some x \<and> py = Some y \<and> 0.05 < x \<and> 0.05 < y)) \<and>
   select_method (Some 0.05) py = Spearman \<and>
   select_method px (Some 0.05) = Spearman \<and>
   select_method None py = Spearman \<and>
   select_method px None = Spearman \<and>
   (statistics lib fmt G = Inr rep \<longrightarrow>
      chosen rep = select_method (snd (shapiro_x rep)) (snd (shapiro_y rep)))"
proof -
  have a: "select_method px py = Pearson \<longleftrightarrow>
      (\<exists>x y. px = Some x \<and> py = Some y \<and> 0.05 < x \<and> 0.05 < y)" for px py
    by (cases px; cases py) (simp_all add: select_method_def)
  have b: "select_method px py = Spearman \<longleftrightarrow> select_method px py \<noteq> Pearson" for px py
    by (cases "select_method px py") simp_all
  have c: "chosen rep = select_method (snd (shapiro_x rep)) (snd (shapiro_y rep))"
    if "statistics lib fmt G = Inr rep"
    using that unfolding statistics_def Let_def
    by (auto split: sum.splits prod.splits)
  show ?thesis
    using a [of px py] b [of px py] a [of "Some 0.05" py] b [of "Some 0.05" py]
      a [of px "Some 0.05"] b [of px "Some 0.05"] a [of None py] b [of None py]
      a [of px None] b [of px None] c
    by simp
qed

theorem method_selection_witness:
  "statistics scipy_nan demo_fmt (scored [full_row, row_18]) = Inr demo_report \<and>
   chosen demo_report = select_method (snd (shapiro_x demo_report)) (snd (shapiro_y demo_report)) \<and>
   select_method (Some 0.10) (Some 0.06) = Pearson \<and>
   select_method (Some 0.10) (Some 0.05) = Spearman"
proof -
  have "chosen demo_report = select_method (snd (shapiro_x demo_report)) (snd (shapiro_y demo_report))"
    using method_selection [of None None scipy_nan demo_fmt "scored [full_row, row_18]" demo_report]
      demo_statistics by blast
  moreover have "select_method (Some 0.10) (Some 0.06) = Pearson"
    "select_method (Some 0.10) (Some 0.05) = Spearman"
    by (simp_all add: select_method_def)
  ultimately show ?thesis using demo_statistics by simp
qed

text \<open>
  C4. On the table of the twenty item columns the listwise filter keeps a row if and only
  if at least 18 of its 20 cells are not missing. The columns stay as they are and the
  kept rows stay in order. In the example the rows have 20, 18 and 17 cells present:
  the first two are kept, the third is dropped.
\<close>

theorem listwise_filter_threshold:
  assumes "wf_frame F" "columns F = X_COLS @ Y_COLS"
  shows "\<exists>F'. listwise_filter F = Inr F' \<and> columns F' = columns F \<and>
           rows F' = filter (\<lambda>r. 18 \<le> length (filter (\<lambda>c. c \<noteq> NA) r)) (rows F) \<and>
           (\<forall>r. r \<in> set (rows F') \<longleftrightarrow>
                  r \<in> set (rows F) \<and> length r = 20 \<and> 18 \<le> length (filter (\<lambda>c. c \<noteq> NA) r))"
proof -
  have "''valid_count'' \<notin> set (columns F)"
    using valid_count_not_item assms(2) by simp
  then have lf: "listwise_filter F = Inr (F\<lparr>rows := filter (\<lambda>r. 18 \<le> valid_count r) (rows F)\<rparr>)"
    using assms(1) by (rule listwise_filter_rows [rotated])
  have nn: "notna = (\<lambda>c. c \<noteq> NA)"
    by (rule ext) (simp add: notna_def)
  have vc: "valid_count = (\<lambda>r. length (filter (\<lambda>c. c \<noteq> NA) r))"
    unfolding valid_count_def nn ..
  have len: "length r = 20" if "r \<in> set (rows F)" for r
    using wf_rowD [OF assms(1) that] by (simp add: assms(2) length_X_COLS length_Y_COLS)
  show ?thesis
    unfolding lf vc using len by auto
qed

theorem listwise_filter_threshold_witness:
  "wf_frame demo_items \<and> columns demo_items = X_COLS @ Y_COLS \<and>
   length (filter (\<lambda>c. c \<noteq> NA) full_row) = 20 \<and>
   length (filter (\<lambda>c. c \<noteq> NA) row_18) = 18 \<and>
   length (filter (\<lambda>c. c \<noteq> NA) row_17) = 17 \<and>
   listwise_filter demo_items = Inr \<lparr>columns = X_COLS @ Y_COLS, rows = [full_row, row_18]\<rparr>"
proof -
  have wf: "wf_frame demo_items"
    by (simp add: wf_frame_def demo_items_def full_row_def row_18_def row_17_def
        length_X_COLS length_Y_COLS)
  have cols: "columns demo_items = X_COLS @ Y_COLS"
    by (simp add: demo_items_def)
  have c20: "length (filter (\<lambda>c. c \<noteq> NA) full_row) = 20"
    and c18: "length (filter (\<lambda>c. c \<noteq> NA) row_18) = 18"
    and c17: "length (filter (\<lambda>c. c \<noteq> NA) row_17) = 17"
    by (simp_all add: full_row_def row_18_def row_17_def)
  obtain F' where "listwise_filter demo_items = Inr F'" "columns F' = columns demo_items"
    "rows F' = filter (\<lambda>r. 18 \<le> length (filter (\<lambda>c. c \<noteq> NA) r)) (rows demo_items)"
    using listwise_filter_threshold [OF wf cols] by blast
  moreover have "filter (\<lambda>r. 18 \<le> length (filter (\<lambda>c. c \<noteq> NA) r)) (rows demo_items) =
                 [full_row, row_18]"
    by (simp add: demo_items_def c20 c18 c17)
  ultimately have "listwise_filter demo_items =
                   Inr \<lparr>columns = X_COLS @ Y_COLS, rows = [full_row, row_18]\<rparr>"
    using cols by (cases F') simp
  then show ?thesis using wf cols c20 c18 c17 by simp
qed

text \<open>
  C5. When the header, after trimming, lacks one or more of the twenty item columns, the
  run ends with the error that lists the missing names of the X set and of the Y set,
  each in the order of its list. The result is the same for every parser, every
  statistics library and every output format, and does not depend on the rows: nothing
  is converted, filtered or computed before the stop.
\<close>

theorem schema_failure_reported:
  assumes "\<not> set (X_COLS @ Y_COLS) \<subseteq> set (map strip (columns df))"
  shows "analyse parse lib fmt df =
         Inl (MissingColumns [c \<leftarrow> X_COLS. c \<notin> set (map strip (columns df))]
                             [c \<leftarrow> Y_COLS. c \<notin> set (map strip (columns df))])"
proof -
  have cols: "columns (strip_columns df) = map strip (columns df)"
    by (simp add: strip_columns_def)
  have "missing_x (strip_columns df) \<noteq> [] \<or> missing_y (strip_columns df) \<noteq> []"
    using assms missing_iff [of "strip_columns df"] cols by simp
  then have "prepare parse df =
      Inl (MissingColumns (missing_x (strip_columns df)) (missing_y (strip_columns df)))"
    by (simp add: prepare_def Let_def)
  then show ?thesis by (simp add: analyse_def missing_x_def missing_y_def cols)
qed

theorem schema_failure_reported_witness:
  "\<not> set (X_COLS @ Y_COLS) \<subseteq> set (map strip (columns demo_missing)) \<and>
   analyse parse_digits scipy_nan demo_fmt demo_missing = Inl (MissingColumns [] Y_COLS)"
proof -
  have hdr: "map strip (columns demo_missing) = ''Timestamp'' # X_COLS"
    by (simp add: demo_missing_def X_COLS_def strip_def is_space_def)
  have no: "\<not> set (X_COLS @ Y_COLS) \<subseteq> set (map strip (columns demo_missing))"
    unfolding hdr by (simp add: X_COLS_def Y_COLS_def)
  have x: "[c \<leftarrow> X_COLS. c \<notin> set (''Timestamp'' # X_COLS)] = []"
    by (simp add: filter_empty_conv)
  have y: "[c \<leftarrow> Y_COLS. c \<notin> set (''Timestamp'' # X_COLS)] = Y_COLS"
    by (simp add: X_COLS_def Y_COLS_def)
  show ?thesis
    using schema_failure_reported [OF no, of parse_digits scipy_nan demo_fmt] no
    unfolding hdr x y by simp
qed








text \<open>
  C9. The relationship is classified as significant exactly when the correlation p-value
  is a number strictly less than 0.05: 0.049 is significant, 0.05 is not, and NaN is
  not. This is the verdict a complete run gives on the p-value it reports.
\<close>

theorem significance_classification:
  "(classify p = Significant \<longleftrightarrow> (\<exists>x. p = Some x \<and> x < 0.05)) \<and>
   (classify p = NotSignificant \<longleftrightarrow> \<not> (\<exists>x. p = Some x \<and> x < 0.05)) \<and>
   classify (Some 0.049) = Significant \<and>
   classify (Some 0.05) = NotSignificant \<and>
   classify None = NotSignificant \<and>
   (statistics lib fmt G = Inr rep \<longrightarrow> conclusion rep = classify (p_value rep))"
proof -
  have a: "classify p = Significant \<longleftrightarrow> (\<exists>x. p = Some x \<and> x < 0.05)" for p
    by (cases p) (simp_all add: classify_def)
  have b: "classify p = NotSignificant \<longleftrightarrow> classify p \<noteq> Significant" for p
    by (cases "classify p") simp_all
  have c: "conclusion rep = classify (p_value rep)"
    if "statistics lib fmt G = Inr rep"
    using that unfolding statistics_def Let_def
    by (auto split: sum.splits prod.splits)
  have d: "classify (Some 0.049) = Significant" "classify (Some 0.05) = NotSignificant"
    "classify None = NotSignificant"
    by (simp_all add: classify_def)
  show ?thesis
    using a [of p] b [of p] c d by simp
qed

theorem significance_classification_witness:
  "statistics scipy_nan demo_fmt (scored [full_row, row_18]) = Inr demo_report \<and>
   conclusion demo_report = classify (p_value demo_report) \<and>
   classify (Some 0.01) = Significant"
proof -
  have "conclusion demo_report = classify (p_value demo_report)"
    using significance_classification [of None scipy_nan demo_fmt "scored [full_row, row_18]"
        demo_report] demo_statistics by blast
  moreover have "classify (Some 0.01) = Significant"
    by (simp add: classify_def)
  ultimately show ?thesis using demo_statistics by simp
qed



end
